theory Spec2Isabelle
  imports Complex_Main
begin

section \<open>Data model of \<open>src/App.tsx\<close>\<close>

text \<open>
  JavaScript numbers are modelled as \<open>real\<close> where the code computes with fractions
  (positions, speeds, hit points, the bullet-power multiplier) and as \<open>int\<close> where the code
  only ever counts (lives, level, score, coins, timers, millisecond clock readings).
  Rounding of IEEE doubles is not modelled.

  Enemy objects are mutated through the reference \<open>e\<close> of the \<open>forEach\<close> callback also
  after the object has been spliced out of \<open>engine.enemies\<close>, so enemies live in an explicit
  store: \<open>enemies\<close> is the array of references, \<open>eheap\<close> maps a reference to the object and
  \<open>nextRef\<close> is the next unused reference. Bullets and power-ups are never written after
  they left their array, so their arrays hold the values themselves.

  Particles, stars and sounds are cosmetic and have no influence on any other part of the
  state; they are left out, and \<open>createExplosion\<close> with them.
\<close>

definition CANVAS_WIDTH :: real where "CANVAS_WIDTH = 800"
definition CANVAS_HEIGHT :: real where "CANVAS_HEIGHT = 600"

datatype GameState = START | PLAYING | PAUSED | GAMEOVER | UPGRADE | GUARDIAN_RESULT

datatype EnemyType = BASIC | FAST | HEAVY | ELITE | BOSS

datatype PowerUpType = TRIPLE_SHOT | SHIELD | COIN

record Achievement =
  a_id :: string
  unlocked :: bool

record Bullet =
  b_x :: real
  b_y :: real
  b_vx :: real
  b_vy :: real
  b_power :: real
  isEnemy :: bool

record Enemy =
  e_id :: real
  e_x :: real
  e_y :: real
  e_type :: EnemyType
  hp :: real
  maxHp :: real
  e_speed :: real
  e_score :: int
  e_width :: real
  e_height :: real
  e_lastShot :: "int option"
  phase :: "int option"
  moveDir :: "real option"

record PowerUp =
  p_x :: real
  p_y :: real
  p_type :: PowerUpType
  p_width :: real
  p_height :: real
  p_value :: int

record Upgrades =
  maxLives :: int
  tripleShotLevel :: int
  fireRate :: int
  moveSpeed :: int
  bulletPower :: real
  armorStrength :: int

record Player =
  pl_x :: real
  pl_y :: real
  pl_width :: real
  pl_height :: real
  pl_speed :: real
  invulnerable :: int
  shield :: bool
  tripleShot :: int

text \<open>
  The React state of the component (\<open>useState\<close>) and the engine object (\<open>engineRef.current\<close>)
  in one record. A state updater \<open>setX(f)\<close> is modelled as the immediate assignment
  \<open>X := f X\<close>, each updater running once and in program order.
\<close>

record Game =
  totalCoins :: int
  upgrades :: Upgrades
  gameState :: GameState
  isGuardianMode :: bool
  escapedEnemies :: int
  score :: int
  sessionCoins :: int
  lives :: int
  playerHits :: int
  level :: int
  achievements :: "Achievement list"
  unlockedAchievement :: "Achievement option"
  player :: Player
  bullets :: "Bullet list"
  enemyBullets :: "Bullet list"
  enemies :: "nat list"
  eheap :: "nat \<Rightarrow> Enemy"
  nextRef :: nat
  powerUps :: "PowerUp list"
  keys :: "string \<Rightarrow> bool"
  lastShot :: int
  enemySpawnTimer :: int
  powerUpSpawnTimer :: int
  frameCount :: int
  startTime :: int
  enemiesKilled :: int
  shieldsPicked :: int
  tripleShotsPicked :: int
  levelUpPending :: bool
  warningTimer :: int
  lostLifeThisRun :: bool
  bossActive :: bool

text \<open>
  What one call of \<open>update\<close> reads from outside the state: the two readings of \<open>Date.now()\<close>
  in \<open>update\<close>, the one in \<open>spawnEnemy\<close>, and the results of the calls of \<open>Math.random()\<close>.
  Every call of \<open>Math.random()\<close> that \<open>update\<close> can make has its own entry, indexed by the
  loop indices under which the call is made: the enemy index \<open>i\<close>, the bullet index \<open>bi\<close>
  and the coin number \<open>j\<close>.
\<close>

record Env =
  now :: int
  now_spawn :: int
  now_end :: int
  rnd_type :: real
  rnd_id :: real
  rnd_x :: real
  rnd_shoot :: "nat \<Rightarrow> real"
  rnd_coin :: "nat \<Rightarrow> nat \<Rightarrow> real"
  rnd_scatter_x :: "nat \<Rightarrow> nat \<Rightarrow> nat \<Rightarrow> real"
  rnd_scatter_y :: "nat \<Rightarrow> nat \<Rightarrow> nat \<Rightarrow> real"
  rnd_pu_type :: real
  rnd_pu_x :: real

section \<open>Arrays\<close>

text \<open>
  \<open>Array.prototype.forEach\<close> fixes the number of indices to visit before the first call,
  visits the indices in increasing order, and skips an index that is no longer in the array
  when its turn comes; the callback reads the element that is at the index at that moment.
  \<open>forEach_from len body n k s\<close> visits the indices \<open>k, ..., n - 1\<close>; \<open>len s\<close> is the
  current length of the array inside the state \<open>s\<close>.
\<close>

function forEach_from :: "('s \<Rightarrow> nat) \<Rightarrow> (nat \<Rightarrow> 's \<Rightarrow> 's) \<Rightarrow> nat \<Rightarrow> nat \<Rightarrow> 's \<Rightarrow> 's" where
  "forEach_from len body n k s =
     (if k < n then forEach_from len body n (Suc k) (if k < len s then body k s else s) else s)"
  by pat_completeness auto
termination
  by (relation "measure (\<lambda>(len, body, n, k, s). n - k)") auto

declare forEach_from.simps [simp del]

definition forEach :: "('s \<Rightarrow> nat) \<Rightarrow> (nat \<Rightarrow> 's \<Rightarrow> 's) \<Rightarrow> 's \<Rightarrow> 's" where
  "forEach len body s = forEach_from len body (len s) 0 s"

text \<open>\<open>xs.splice(i, 1)\<close>: remove the element at index \<open>i\<close>, if there is one.\<close>

definition splice1 :: "nat \<Rightarrow> 'a list \<Rightarrow> 'a list" where
  "splice1 i xs = take i xs @ drop (Suc i) xs"

text \<open>\<open>xs.findIndex(P)\<close>, with \<open>None\<close> for \<open>-1\<close>.\<close>

fun findIndex :: "('a \<Rightarrow> bool) \<Rightarrow> 'a list \<Rightarrow> nat option" where
  "findIndex P [] = None"
| "findIndex P (x # xs) = (if P x then Some 0 else map_option Suc (findIndex P xs))"

definition randomRange :: "real \<Rightarrow> real \<Rightarrow> real \<Rightarrow> real" where
  \<comment> \<open>the first argument is the result of \<open>Math.random()\<close>\<close>
  "randomRange r lo hi = r * (hi - lo) + lo"

definition dist :: "real \<Rightarrow> real \<Rightarrow> real" where
  "dist dx dy = sqrt (dx * dx + dy * dy)"

section \<open>Persistence\<close>

text \<open>
  \<open>localStorage\<close> is a map from keys to strings. \<open>parseInt\<close>, \<open>Number.prototype.toString\<close>,
  \<open>JSON.parse\<close> and \<open>JSON.stringify\<close> belong to the JavaScript runtime and are parameters;
  \<open>parseInt\<close> returns \<open>None\<close> for \<open>NaN\<close>. The empty string is falsy, so
  \<open>saved ? parseInt(saved) : 0\<close> is \<open>0\<close> for it.
\<close>

type_synonym Storage = "string \<rightharpoonup> string"

definition defaultUpgrades :: Upgrades where
  "defaultUpgrades = \<lparr>maxLives = 3, tripleShotLevel = 0, fireRate = 200, moveSpeed = 6,
     bulletPower = 1, armorStrength = 5\<rparr>"

definition loadTotalCoins :: "(string \<Rightarrow> int option) \<Rightarrow> Storage \<Rightarrow> int option" where
  "loadTotalCoins parseInt ls =
     (case ls ''tina_coins'' of
        None \<Rightarrow> Some 0
      | Some saved \<Rightarrow> if saved = [] then Some 0 else parseInt saved)"

definition loadUpgrades :: "(string \<Rightarrow> Upgrades) \<Rightarrow> Storage \<Rightarrow> Upgrades" where
  "loadUpgrades jsonParse ls =
     (case ls ''karl_upgrades'' of
        None \<Rightarrow> defaultUpgrades
      | Some saved \<Rightarrow> if saved = [] then defaultUpgrades else jsonParse saved)"

definition savePersistent ::
    "(int \<Rightarrow> string) \<Rightarrow> (Upgrades \<Rightarrow> string) \<Rightarrow> int \<Rightarrow> Upgrades \<Rightarrow> Storage \<Rightarrow> Storage" where
  \<comment> \<open>the effect on \<open>[totalCoins, upgrades]\<close>\<close>
  "savePersistent toString jsonStringify coins u ls =
     (ls(''karl_coins'' \<mapsto> toString coins))(''karl_upgrades'' \<mapsto> jsonStringify u)"

section \<open>Session control\<close>

definition initialAchievements :: "Achievement list" where
  \<comment> \<open>titles and descriptions are display texts and are left out\<close>
  "initialAchievements =
     [\<lparr>a_id = ''first_blood'', unlocked = False\<rparr>,
      \<lparr>a_id = ''survivor'', unlocked = False\<rparr>,
      \<lparr>a_id = ''ace_pilot'', unlocked = False\<rparr>,
      \<lparr>a_id = ''shield_master'', unlocked = False\<rparr>,
      \<lparr>a_id = ''power_hungry'', unlocked = False\<rparr>,
      \<lparr>a_id = ''rich_man'', unlocked = False\<rparr>,
      \<lparr>a_id = ''untouchable'', unlocked = False\<rparr>,
      \<lparr>a_id = ''boss_slayer'', unlocked = False\<rparr>,
      \<lparr>a_id = ''guardian_hero'', unlocked = False\<rparr>]"

definition noEnemy :: Enemy where
  \<comment> \<open>content of the unused cells of the store\<close>
  "noEnemy = \<lparr>e_id = 0, e_x = 0, e_y = 0, e_type = BASIC, hp = 0, maxHp = 0, e_speed = 0,
     e_score = 0, e_width = 0, e_height = 0, e_lastShot = None, phase = None, moveDir = None\<rparr>"

definition initialGame :: "int \<Rightarrow> Upgrades \<Rightarrow> Game" where
  \<comment> \<open>the component's state after its first render, given what was loaded\<close>
  "initialGame coins u =
     \<lparr>totalCoins = coins, upgrades = u, gameState = START, isGuardianMode = False,
      escapedEnemies = 0, score = 0, sessionCoins = 0, lives = 3, playerHits = 0, level = 1,
      achievements = initialAchievements, unlockedAchievement = None,
      player = \<lparr>pl_x = CANVAS_WIDTH / 2, pl_y = CANVAS_HEIGHT - 80, pl_width = 40,
        pl_height = 40, pl_speed = 6, invulnerable = 0, shield = False, tripleShot = 0\<rparr>,
      bullets = [], enemyBullets = [], enemies = [], eheap = (\<lambda>r. noEnemy), nextRef = 0,
      powerUps = [], keys = (\<lambda>k. False), lastShot = 0, enemySpawnTimer = 0,
      powerUpSpawnTimer = 0, frameCount = 0, startTime = 0, enemiesKilled = 0,
      shieldsPicked = 0, tripleShotsPicked = 0, levelUpPending = False, warningTimer = 0,
      lostLifeThisRun = False, bossActive = False\<rparr>"

definition startGame :: "bool \<Rightarrow> int \<Rightarrow> Game \<Rightarrow> Game" where
  \<comment> \<open>the second argument is \<open>Date.now()\<close>\<close>
  "startGame guardian t s =
     (if guardian \<and> totalCoins s < 450 then s
      else
        (let s1 = (if guardian
                   then s\<lparr>totalCoins := totalCoins s - 450, isGuardianMode := True,
                          escapedEnemies := 0\<rparr>
                   else s\<lparr>isGuardianMode := False\<rparr>)
         in s1\<lparr>gameState := PLAYING, score := 0, sessionCoins := 0,
               lives := (if guardian then 999999 else maxLives (upgrades s)),
               playerHits := 0, level := 1,
               player := \<lparr>pl_x = CANVAS_WIDTH / 2, pl_y = CANVAS_HEIGHT - 80, pl_width = 40,
                 pl_height = 40, pl_speed = real_of_int (moveSpeed (upgrades s)),
                 invulnerable = 0,
                 shield = False,
                 tripleShot = (if tripleShotLevel (upgrades s) = 2 then 999999 else 0)\<rparr>,
               bullets := [], enemyBullets := [], enemies := [], powerUps := [],
               enemiesKilled := 0, shieldsPicked := 0, tripleShotsPicked := 0,
               startTime := t, frameCount := 0, lostLifeThisRun := False,
               bossActive := False\<rparr>))"

definition togglePause :: "Game \<Rightarrow> Game" where
  "togglePause s =
     (if gameState s = PLAYING then s\<lparr>gameState := PAUSED\<rparr>
      else if gameState s = PAUSED then s\<lparr>gameState := PLAYING\<rparr>
      else s)"

definition unlockAchievement :: "string \<Rightarrow> Game \<Rightarrow> Game" where
  "unlockAchievement aid s =
     (case findIndex (\<lambda>a. a_id a = aid) (achievements s) of
        None \<Rightarrow> s
      | Some index \<Rightarrow>
          if \<not> unlocked (achievements s ! index)
          then (let a = (achievements s ! index)\<lparr>unlocked := True\<rparr>
                in s\<lparr>achievements := (achievements s)[index := a],
                     unlockedAchievement := Some a\<rparr>)
          else s)"

section \<open>Spawning\<close>

definition pushEnemy :: "Enemy \<Rightarrow> Game \<Rightarrow> Game" where
  \<comment> \<open>\<open>engine.enemies.push({...})\<close>: a new object, appended\<close>
  "pushEnemy e s =
     s\<lparr>eheap := (eheap s)(nextRef s := e), enemies := enemies s @ [nextRef s],
       nextRef := Suc (nextRef s)\<rparr>"

definition rollType :: "int \<Rightarrow> real \<Rightarrow> EnemyType" where
  \<comment> \<open>the branch of \<open>spawnEnemy\<close> taken for \<open>level\<close> and \<open>typeRoll\<close>\<close>
  "rollType lvl typeRoll =
     (if lvl \<ge> 3 \<and> typeRoll > 0.9 then ELITE
      else if typeRoll > 0.75 then HEAVY
      else if typeRoll > 0.55 then FAST
      else BASIC)"

definition normalEnemy :: "int \<Rightarrow> Env \<Rightarrow> Enemy" where
  \<comment> \<open>the object pushed by the normal path of \<open>spawnEnemy\<close>\<close>
  "normalEnemy lvl env =
     (let type = rollType lvl (rnd_type env);
          h = (case type of ELITE \<Rightarrow> 2 | HEAVY \<Rightarrow> 3 | _ \<Rightarrow> 1);
          speed = (case type of
                     ELITE \<Rightarrow> 2.5 + real_of_int lvl * 0.2
                   | HEAVY \<Rightarrow> 1 + real_of_int lvl * 0.1
                   | FAST \<Rightarrow> 4 + real_of_int lvl * 0.3
                   | _ \<Rightarrow> 2 + real_of_int lvl * 0.2);
          scoreVal = (case type of ELITE \<Rightarrow> 500 | HEAVY \<Rightarrow> 300 | FAST \<Rightarrow> 200 | _ \<Rightarrow> 100);
          width = (case type of ELITE \<Rightarrow> 45 | HEAVY \<Rightarrow> 60 | FAST \<Rightarrow> 30 | _ \<Rightarrow> 40);
          height = (case type of ELITE \<Rightarrow> 45 | HEAVY \<Rightarrow> 50 | FAST \<Rightarrow> 30 | _ \<Rightarrow> 40)
      in \<lparr>e_id = real_of_int (now_spawn env) + rnd_id env,
          e_x = randomRange (rnd_x env) width (CANVAS_WIDTH - width),
          e_y = - height, e_type = type, hp = h, maxHp = h, e_speed = speed,
          e_score = scoreVal, e_width = width, e_height = height, e_lastShot = Some 0,
          phase = None, moveDir = None\<rparr>)"

definition bossEnemy :: "int \<Rightarrow> Env \<Rightarrow> Enemy" where
  "bossEnemy lvl env =
     \<lparr>e_id = real_of_int (now_spawn env), e_x = CANVAS_WIDTH / 2, e_y = - 100, e_type = BOSS,
      hp = 50 + real_of_int lvl * 10, maxHp = 50 + real_of_int lvl * 10, e_speed = 1,
      e_score = 5000, e_width = 150, e_height = 100, e_lastShot = Some 0, phase = Some 1,
      moveDir = Some 1\<rparr>"

text \<open>
  In the functions of \<open>update\<close> the argument \<open>c\<close> is the state of the render that created the
  closure: \<open>level\<close>, \<open>score\<close>, \<open>isGuardianMode\<close> and \<open>upgrades\<close> are read from it, while the
  updaters and the engine object work on the current state \<open>s\<close>.
\<close>

definition spawnEnemy :: "Game \<Rightarrow> Env \<Rightarrow> Game \<Rightarrow> Game" where
  "spawnEnemy c env s =
     (if bossActive s then s
      else if level c mod 10 = 0 \<and> length (enemies s) = 0 \<and> \<not> bossActive s
      then pushEnemy (bossEnemy (level c) env) (s\<lparr>bossActive := True\<rparr>)
      else pushEnemy (normalEnemy (level c) env) s)"

definition spawnPowerUp ::
    "real option \<Rightarrow> real option \<Rightarrow> PowerUpType option \<Rightarrow> real \<Rightarrow> real \<Rightarrow> Game \<Rightarrow> Game" where
  \<comment> \<open>\<open>tr\<close> and \<open>xr\<close> are the results of \<open>Math.random()\<close> for the type and for \<open>x\<close>\<close>
  "spawnPowerUp x y forceType tr xr s =
     (let type = (case forceType of
                    Some ft \<Rightarrow> ft
                  | None \<Rightarrow> if tr > 0.5 then TRIPLE_SHOT else SHIELD)
      in s\<lparr>powerUps := powerUps s @
            [\<lparr>p_x = (case x of Some v \<Rightarrow> v | None \<Rightarrow> randomRange xr 30 (CANVAS_WIDTH - 30)),
              p_y = (case y of Some v \<Rightarrow> v | None \<Rightarrow> - 30),
              p_type = type, p_width = 30, p_height = 30,
              p_value = (if type = COIN then 10 else 0)\<rparr>]\<rparr>)"

section \<open>The world update \<open>update\<close>\<close>

subsection \<open>1. Player movement and 2. shooting\<close>

definition movePlayer :: "Game \<Rightarrow> Game" where
  "movePlayer s =
     (let p = player s;
          x1 = (if keys s ''ArrowLeft'' \<or> keys s ''KeyA'' then pl_x p - pl_speed p else pl_x p);
          x2 = (if keys s ''ArrowRight'' \<or> keys s ''KeyD'' then x1 + pl_speed p else x1);
          y1 = (if keys s ''ArrowUp'' \<or> keys s ''KeyW'' then pl_y p - pl_speed p else pl_y p);
          y2 = (if keys s ''ArrowDown'' \<or> keys s ''KeyS'' then y1 + pl_speed p else y1)
      in s\<lparr>player := p
           \<lparr>pl_x := max (pl_width p / 2) (min (CANVAS_WIDTH - pl_width p / 2) x2),
            pl_y := max (pl_height p / 2) (min (CANVAS_HEIGHT - pl_height p / 2) y2)\<rparr>\<rparr>)"

definition playerBullet :: "Player \<Rightarrow> real \<Rightarrow> real \<Rightarrow> Bullet" where
  "playerBullet p vx vy =
     \<lparr>b_x = pl_x p, b_y = pl_y p - 20, b_vx = vx, b_vy = vy, b_power = 1, isEnemy = False\<rparr>"

definition shoot :: "Game \<Rightarrow> Env \<Rightarrow> Game \<Rightarrow> Game" where
  "shoot c env s =
     (if keys s ''Space'' \<and> now env - lastShot s > fireRate (upgrades c)
      then
        (let p = player s;
             s1 = (if tripleShot p > 0
                   then s\<lparr>bullets := bullets s @
                            [playerBullet p 0 (- 12), playerBullet p (- 3) (- 11),
                             playerBullet p 3 (- 11)],
                          player := (if tripleShotLevel (upgrades c) < 2
                                     then p\<lparr>tripleShot := tripleShot p - 1\<rparr> else p)\<rparr>
                   else s\<lparr>bullets := bullets s @ [playerBullet p 0 (- 12)]\<rparr>)
         in s1\<lparr>lastShot := now env\<rparr>)
      else s)"

subsection \<open>3. Bullets\<close>

definition moveBullet :: "Bullet \<Rightarrow> Bullet" where
  "moveBullet b = b\<lparr>b_x := b_x b + b_vx b, b_y := b_y b + b_vy b\<rparr>"

definition bulletStep :: "nat \<Rightarrow> Game \<Rightarrow> Game" where
  \<comment> \<open>the callback of \<open>engine.bullets.forEach\<close>\<close>
  "bulletStep i s =
     (let b = moveBullet (bullets s ! i);
          s1 = s\<lparr>bullets := (bullets s)[i := b]\<rparr>
      in if b_y b < - 20 \<or> b_x b < - 20 \<or> b_x b > CANVAS_WIDTH + 20
         then s1\<lparr>bullets := splice1 i (bullets s1)\<rparr> else s1)"

definition loseLife :: "Game \<Rightarrow> Game" where
  \<comment> \<open>\<open>setLives(l => { if (l <= 1) setGameState('GAMEOVER'); return l - 1; })\<close>\<close>
  "loseLife s =
     (let s1 = (if lives s \<le> 1 then s\<lparr>gameState := GAMEOVER\<rparr> else s)
      in s1\<lparr>lives := lives s - 1\<rparr>)"

definition hitPlayer :: "Game \<Rightarrow> Game \<Rightarrow> Game" where
  \<comment> \<open>the updater passed to \<open>setPlayerHits\<close>\<close>
  "hitPlayer c s =
     (let newHits = playerHits s + 1
      in if newHits \<ge> armorStrength (upgrades c)
         then (loseLife s)\<lparr>lostLifeThisRun := True, playerHits := 0\<rparr>
         else s\<lparr>playerHits := newHits\<rparr>)"

definition enemyBulletStep :: "Game \<Rightarrow> nat \<Rightarrow> Game \<Rightarrow> Game" where
  \<comment> \<open>the callback of \<open>engine.enemyBullets.forEach\<close>\<close>
  "enemyBulletStep c i s =
     (let b = moveBullet (enemyBullets s ! i);
          s1 = s\<lparr>enemyBullets := (enemyBullets s)[i := b]\<rparr>;
          s2 = (if b_y b > CANVAS_HEIGHT + 20
                then s1\<lparr>enemyBullets := splice1 i (enemyBullets s1)\<rparr> else s1)
      in if invulnerable (player s2) \<le> 0
            \<and> dist (pl_x (player s2) - b_x b) (pl_y (player s2) - b_y b)
                < pl_width (player s2) / 2
         then
           (let s3 = s2\<lparr>enemyBullets := splice1 i (enemyBullets s2)\<rparr>;
                s4 = (if shield (player s3) then s3\<lparr>player := (player s3)\<lparr>shield := False\<rparr>\<rparr>
                      else if \<not> isGuardianMode c then hitPlayer c s3
                      else s3)
            in s4\<lparr>player := (player s4)\<lparr>invulnerable := 60\<rparr>\<rparr>)
         else s2)"

subsection \<open>5. Enemies\<close>

definition spawnTick :: "Game \<Rightarrow> Env \<Rightarrow> Game \<Rightarrow> Game" where
  "spawnTick c env s =
     (let s1 = s\<lparr>enemySpawnTimer := enemySpawnTimer s + 1\<rparr>;
          spawnRate = max 15 (50 - level c * 4)
      in if enemySpawnTimer s1 > spawnRate
         then (spawnEnemy c env s1)\<lparr>enemySpawnTimer := 0\<rparr>
         else s1)"

definition updEnemy :: "nat \<Rightarrow> (Enemy \<Rightarrow> Enemy) \<Rightarrow> Game \<Rightarrow> Game" where
  \<comment> \<open>a write through the reference \<open>r\<close>\<close>
  "updEnemy r f s = s\<lparr>eheap := (eheap s)(r := f (eheap s r))\<rparr>"

definition moveDirOr1 :: "Enemy \<Rightarrow> real" where
  \<comment> \<open>\<open>(e.moveDir || 1)\<close>\<close>
  "moveDirOr1 e = (case moveDir e of None \<Rightarrow> 1 | Some d \<Rightarrow> if d = 0 then 1 else d)"

definition lastShotOr0 :: "Enemy \<Rightarrow> int" where
  \<comment> \<open>\<open>(e.lastShot || 0)\<close>\<close>
  "lastShotOr0 e = (case e_lastShot e of None \<Rightarrow> 0 | Some t \<Rightarrow> t)"

definition bossBullet :: "Enemy \<Rightarrow> int \<Rightarrow> Bullet" where
  "bossBullet e j =
     \<lparr>b_x = e_x e + real_of_int j * 20, b_y = e_y e + 40, b_vx = real_of_int j * 1, b_vy = 6,
      b_power = 1, isEnemy = True\<rparr>"

definition enemyMove :: "Env \<Rightarrow> nat \<Rightarrow> Game \<Rightarrow> Game" where
  "enemyMove env r s =
     (if e_type (eheap s r) = BOSS
      then
        (let s1 = (if e_y (eheap s r) < 100 then updEnemy r (\<lambda>e. e\<lparr>e_y := e_y e + 1\<rparr>) s else s);
             s2 = updEnemy r (\<lambda>e. e\<lparr>e_x := e_x e + moveDirOr1 e * 2\<rparr>) s1;
             s3 = (if e_x (eheap s2 r) < 100 \<or> e_x (eheap s2 r) > CANVAS_WIDTH - 100
                   then updEnemy r (\<lambda>e. e\<lparr>moveDir := Some (moveDirOr1 e * - 1)\<rparr>) s2 else s2)
         in if now env - lastShotOr0 (eheap s3 r) > 1000
            then updEnemy r (\<lambda>e. e\<lparr>e_lastShot := Some (now env)\<rparr>)
                   (s3\<lparr>enemyBullets := enemyBullets s3 @
                         map (bossBullet (eheap s3 r)) [- 2, - 1, 0, 1, 2]\<rparr>)
            else s3)
      else updEnemy r (\<lambda>e. e\<lparr>e_y := e_y e + e_speed e\<rparr>) s)"

definition enemyShoot :: "Game \<Rightarrow> Env \<Rightarrow> nat \<Rightarrow> nat \<Rightarrow> Game \<Rightarrow> Game" where
  "enemyShoot c env i r s =
     (if (e_type (eheap s r) = ELITE \<or> (level c \<ge> 3 \<and> rnd_shoot env i < 0.01))
         \<and> now env - lastShotOr0 (eheap s r) > 1500
      then updEnemy r (\<lambda>e. e\<lparr>e_lastShot := Some (now env)\<rparr>)
             (s\<lparr>enemyBullets := enemyBullets s @
                   [\<lparr>b_x = e_x (eheap s r), b_y = e_y (eheap s r) + 20, b_vx = 0, b_vy = 5,
                     b_power = 1, isEnemy = True\<rparr>]\<rparr>)
      else s)"

definition contact :: "Game \<Rightarrow> nat \<Rightarrow> nat \<Rightarrow> Game \<Rightarrow> Game" where
  \<comment> \<open>"Check collision with player"\<close>
  "contact c i r s =
     (if invulnerable (player s) \<le> 0
         \<and> dist (pl_x (player s) - e_x (eheap s r)) (pl_y (player s) - e_y (eheap s r))
             < (pl_width (player s) + e_width (eheap s r)) / 2.5
      then
        (let s1 = (if shield (player s) then s\<lparr>player := (player s)\<lparr>shield := False\<rparr>\<rparr>
                   else if \<not> isGuardianMode c then (loseLife s)\<lparr>lostLifeThisRun := True\<rparr>
                   else s);
             s2 = s1\<lparr>player := (player s1)\<lparr>invulnerable := 120\<rparr>\<rparr>
         in if e_type (eheap s2 r) \<noteq> BOSS
            then s2\<lparr>enemies := splice1 i (enemies s2)\<rparr> else s2)
      else s)"

definition bossCoin :: "Env \<Rightarrow> nat \<Rightarrow> nat \<Rightarrow> Enemy \<Rightarrow> nat \<Rightarrow> Game \<Rightarrow> Game" where
  "bossCoin env i bi e j s =
     spawnPowerUp (Some (e_x e + randomRange (rnd_scatter_x env i bi j) (- 50) 50))
       (Some (e_y e + randomRange (rnd_scatter_y env i bi j) (- 50) 50)) (Some COIN) 0 0 s"

definition killEnemy :: "Env \<Rightarrow> nat \<Rightarrow> nat \<Rightarrow> nat \<Rightarrow> Game \<Rightarrow> Game" where
  \<comment> \<open>the body of \<open>if (e.hp <= 0)\<close>\<close>
  "killEnemy env i r bi s =
     (let e = eheap s r;
          s1 = s\<lparr>score := score s + e_score e, enemiesKilled := enemiesKilled s + 1\<rparr>;
          s2 = (if e_type e = BOSS
                then unlockAchievement ''boss_slayer''
                       (fold (bossCoin env i bi e) [0..<10] (s1\<lparr>bossActive := False\<rparr>))
                else if rnd_coin env i bi < 0.4
                     then spawnPowerUp (Some (e_x e)) (Some (e_y e)) (Some COIN) 0 0 s1
                     else s1);
          s3 = s2\<lparr>enemies := splice1 i (enemies s2)\<rparr>;
          s4 = (if enemiesKilled s3 = 1 then unlockAchievement ''first_blood'' s3 else s3)
      in if enemiesKilled s4 = 50 then unlockAchievement ''ace_pilot'' s4 else s4)"

definition bulletVsEnemy :: "Game \<Rightarrow> Env \<Rightarrow> nat \<Rightarrow> nat \<Rightarrow> nat \<Rightarrow> Game \<Rightarrow> Game" where
  \<comment> \<open>the callback of the inner \<open>engine.bullets.forEach\<close>\<close>
  "bulletVsEnemy c env i r bi s =
     (let b = bullets s ! bi
      in if dist (b_x b - e_x (eheap s r)) (b_y b - e_y (eheap s r)) < e_width (eheap s r) / 2 + 5
         then
           (let s1 = updEnemy r (\<lambda>e. e\<lparr>hp := hp e - b_power b * bulletPower (upgrades c)\<rparr>) s;
                s2 = s1\<lparr>bullets := splice1 bi (bullets s1)\<rparr>
            in if hp (eheap s2 r) \<le> 0 then killEnemy env i r bi s2 else s2)
         else s)"

definition escapeCheck :: "Game \<Rightarrow> nat \<Rightarrow> nat \<Rightarrow> Game \<Rightarrow> Game" where
  "escapeCheck c i r s =
     (if e_y (eheap s r) > CANVAS_HEIGHT + e_height (eheap s r)
      then
        (let s1 = s\<lparr>enemies := splice1 i (enemies s)\<rparr>
         in if isGuardianMode c
            then (let next = escapedEnemies s1 + 1;
                      s2 = (if next \<ge> 40 then s1\<lparr>gameState := GUARDIAN_RESULT\<rparr> else s1)
                  in s2\<lparr>escapedEnemies := next\<rparr>)
            else s1)
      else s)"

definition enemyStep :: "Game \<Rightarrow> Env \<Rightarrow> nat \<Rightarrow> Game \<Rightarrow> Game" where
  \<comment> \<open>the callback of \<open>engine.enemies.forEach\<close>; \<open>r\<close> is the reference \<open>e\<close>\<close>
  "enemyStep c env i s =
     (let r = enemies s ! i
      in escapeCheck c i r
           (forEach (\<lambda>t. length (bullets t)) (bulletVsEnemy c env i r)
              (contact c i r (enemyShoot c env i r (enemyMove env r s)))))"

subsection \<open>6. Power-ups\<close>

definition valueOr10 :: "PowerUp \<Rightarrow> int" where
  \<comment> \<open>\<open>(p.value || 10)\<close>\<close>
  "valueOr10 p = (if p_value p = 0 then 10 else p_value p)"

definition applyPowerUp :: "PowerUp \<Rightarrow> Game \<Rightarrow> Game" where
  "applyPowerUp p s =
     (case p_type p of
        SHIELD \<Rightarrow>
          (let s1 = s\<lparr>player := (player s)\<lparr>shield := True\<rparr>,
                      shieldsPicked := shieldsPicked s + 1\<rparr>
           in if shieldsPicked s1 = 3 then unlockAchievement ''shield_master'' s1 else s1)
      | TRIPLE_SHOT \<Rightarrow>
          (let s1 = s\<lparr>player := (player s)\<lparr>tripleShot := tripleShot (player s) + 30\<rparr>,
                      tripleShotsPicked := tripleShotsPicked s + 1\<rparr>
           in if tripleShotsPicked s1 = 3 then unlockAchievement ''power_hungry'' s1 else s1)
      | COIN \<Rightarrow>
          (let s1 = s\<lparr>sessionCoins := sessionCoins s + valueOr10 p\<rparr>;
               newTotal = totalCoins s1 + valueOr10 p;
               s2 = (if newTotal \<ge> 1000 then unlockAchievement ''rich_man'' s1 else s1)
           in s2\<lparr>totalCoins := newTotal\<rparr>))"

definition bulletVsPowerUp :: "PowerUp \<Rightarrow> nat \<Rightarrow> nat \<Rightarrow> Game \<Rightarrow> Game" where
  \<comment> \<open>the callback of the inner \<open>engine.bullets.forEach\<close>; \<open>p\<close> is the moved power-up\<close>
  "bulletVsPowerUp p i bi s =
     (let b = bullets s ! bi
      in if dist (b_x b - p_x p) (b_y b - p_y p) < (p_width p + 10) / 2
         then
           (let s1 = s\<lparr>bullets := splice1 bi (bullets s)\<rparr>;
                s2 = applyPowerUp p s1
            in s2\<lparr>powerUps := splice1 i (powerUps s2)\<rparr>)
         else s)"

definition powerUpStep :: "nat \<Rightarrow> Game \<Rightarrow> Game" where
  \<comment> \<open>the callback of \<open>engine.powerUps.forEach\<close>\<close>
  "powerUpStep i s =
     (let p = (powerUps s ! i)\<lparr>p_y := p_y (powerUps s ! i) + 2\<rparr>;
          s1 = s\<lparr>powerUps := (powerUps s)[i := p]\<rparr>;
          s2 = forEach (\<lambda>t. length (bullets t)) (bulletVsPowerUp p i) s1
      in if p_y p > CANVAS_HEIGHT + 50
         then s2\<lparr>powerUps := splice1 i (powerUps s2)\<rparr> else s2)"

definition powerUpTick :: "Env \<Rightarrow> Game \<Rightarrow> Game" where
  "powerUpTick env s =
     (let s1 = s\<lparr>powerUpSpawnTimer := powerUpSpawnTimer s + 1\<rparr>
      in if powerUpSpawnTimer s1 > 600
         then (spawnPowerUp None None None (rnd_pu_type env) (rnd_pu_x env) s1)
                \<lparr>powerUpSpawnTimer := 0\<rparr>
         else s1)"

subsection \<open>8. Level up, 9. survivor, end of the frame\<close>

definition levelUp :: "Game \<Rightarrow> Game \<Rightarrow> Game" where
  "levelUp c s =
     (if score c > level c * 2000
      then
        (let nextLevel = level s + 1;
             s1 = (if nextLevel = 5 \<and> \<not> lostLifeThisRun s
                   then unlockAchievement ''untouchable'' s else s)
         in s1\<lparr>level := nextLevel, enemies := [], enemyBullets := [], levelUpPending := True\<rparr>)
      else s)"

definition survivorCheck :: "Env \<Rightarrow> Game \<Rightarrow> Game" where
  "survivorCheck env s =
     (if now_end env - startTime s > 60000 then unlockAchievement ''survivor'' s else s)"

definition endFrame :: "Game \<Rightarrow> Game" where
  "endFrame s =
     (let s1 = (if invulnerable (player s) > 0
                then s\<lparr>player := (player s)\<lparr>invulnerable := invulnerable (player s) - 1\<rparr>\<rparr>
                else s);
          s2 = (if warningTimer s1 > 0 then s1\<lparr>warningTimer := warningTimer s1 - 1\<rparr> else s1)
      in s2\<lparr>frameCount := frameCount s2 + 1\<rparr>)"

subsection \<open>The whole update\<close>

definition updateBullets :: "Game \<Rightarrow> Game \<Rightarrow> Game" where
  "updateBullets c s =
     forEach (\<lambda>t. length (enemyBullets t)) (enemyBulletStep c)
       (forEach (\<lambda>t. length (bullets t)) bulletStep s)"

definition updateEnemies :: "Game \<Rightarrow> Env \<Rightarrow> Game \<Rightarrow> Game" where
  "updateEnemies c env s =
     forEach (\<lambda>t. length (enemies t)) (enemyStep c env) (spawnTick c env s)"

definition updatePowerUps :: "Env \<Rightarrow> Game \<Rightarrow> Game" where
  "updatePowerUps env s = forEach (\<lambda>t. length (powerUps t)) powerUpStep (powerUpTick env s)"

definition update :: "Game \<Rightarrow> Env \<Rightarrow> Game \<Rightarrow> Game" where
  "update c env s =
     endFrame (survivorCheck env (levelUp c (updatePowerUps env (updateEnemies c env
       (updateBullets c (shoot c env (movePlayer s)))))))"

definition tick :: "Env \<Rightarrow> Game \<Rightarrow> Game" where
  \<comment> \<open>one frame: the closure was created by the render of the state the frame starts in\<close>
  "tick env s = update s env s"

section \<open>Events\<close>

text \<open>
  Everything that changes the state: a frame of the animation loop, which runs only while
  \<open>gameState\<close> is \<open>PLAYING\<close>; the keyboard and touch handlers; the buttons, each of which is
  rendered in one \<open>gameState\<close> only; the two timers that clear a notification. The button of
  the game-over screen passes the click event to \<open>startGame\<close>, a truthy value for \<open>guardian\<close>.
\<close>

datatype UpgradeKind = BuyMaxLives | BuyBulletPower | BuyArmor | BuyTripleShot | BuyFireRate
  | BuyMoveSpeed

datatype Event =
    Frame Env
  | KeyDown string
  | KeyUp string
  | TouchMove real real
  | TouchEnd
  | ClickStart bool int
  | ClickRestart int
  | ClickUpgrades
  | ClickBack
  | ClickQuit
  | ClickPause
  | ClickClaim int
  | ClickBuy UpgradeKind
  | LevelUpTimeout
  | AchievementTimeout

definition upgradeCost :: "UpgradeKind \<Rightarrow> Upgrades \<Rightarrow> int" where
  "upgradeCost k u =
     (case k of
        BuyMaxLives \<Rightarrow> maxLives u * 200
      | BuyBulletPower \<Rightarrow> round (bulletPower u * 500)
      | BuyArmor \<Rightarrow> armorStrength u * 150
      | BuyTripleShot \<Rightarrow> 2000
      | BuyFireRate \<Rightarrow> 800 + (200 - fireRate u) * 10
      | BuyMoveSpeed \<Rightarrow> moveSpeed u * 100)"

definition upgradeMaxed :: "UpgradeKind \<Rightarrow> Upgrades \<Rightarrow> bool" where
  "upgradeMaxed k u =
     (case k of
        BuyMaxLives \<Rightarrow> maxLives u \<ge> 10
      | BuyBulletPower \<Rightarrow> bulletPower u \<ge> 5
      | BuyArmor \<Rightarrow> armorStrength u \<ge> 15
      | BuyTripleShot \<Rightarrow> tripleShotLevel u \<ge> 2
      | BuyFireRate \<Rightarrow> fireRate u \<le> 60
      | BuyMoveSpeed \<Rightarrow> moveSpeed u \<ge> 15)"

definition applyUpgrade :: "UpgradeKind \<Rightarrow> Upgrades \<Rightarrow> Upgrades" where
  "applyUpgrade k u =
     (case k of
        BuyMaxLives \<Rightarrow> u\<lparr>maxLives := maxLives u + 1\<rparr>
      | BuyBulletPower \<Rightarrow> u\<lparr>bulletPower := bulletPower u + 0.5\<rparr>
      | BuyArmor \<Rightarrow> u\<lparr>armorStrength := armorStrength u + 1\<rparr>
      | BuyTripleShot \<Rightarrow> u\<lparr>tripleShotLevel := 2\<rparr>
      | BuyFireRate \<Rightarrow> u\<lparr>fireRate := fireRate u - 20\<rparr>
      | BuyMoveSpeed \<Rightarrow> u\<lparr>moveSpeed := moveSpeed u + 1\<rparr>)"

definition buy :: "UpgradeKind \<Rightarrow> Game \<Rightarrow> Game" where
  "buy k s =
     (if totalCoins s < upgradeCost k (upgrades s) \<or> upgradeMaxed k (upgrades s) then s
      else s\<lparr>totalCoins := totalCoins s - upgradeCost k (upgrades s),
             upgrades := applyUpgrade k (upgrades s)\<rparr>)"

definition claimReward :: "int \<Rightarrow> Game \<Rightarrow> Game" where
  "claimReward t s =
     (let reward = \<lfloor>real_of_int (enemiesKilled s * 5) + real_of_int (t - startTime s) / 1000\<rfloor>
      in s\<lparr>totalCoins := totalCoins s + reward, gameState := START\<rparr>)"

definition handleTouchMove :: "real \<Rightarrow> real \<Rightarrow> Game \<Rightarrow> Game" where
  "handleTouchMove x y s =
     (if gameState s \<noteq> PLAYING then s
      else s\<lparr>player := (player s)\<lparr>pl_x := x, pl_y := y - 50\<rparr>,
             keys := (keys s)(''Space'' := True)\<rparr>)"

fun handle :: "Event \<Rightarrow> Game \<Rightarrow> Game" where
  "handle (Frame env) s = (if gameState s = PLAYING then tick env s else s)"
| "handle (KeyDown code) s =
     (let s1 = s\<lparr>keys := (keys s)(code := True)\<rparr>
      in if code = ''KeyP'' then togglePause s1 else s1)"
| "handle (KeyUp code) s = s\<lparr>keys := (keys s)(code := False)\<rparr>"
| "handle (TouchMove x y) s = handleTouchMove x y s"
| "handle TouchEnd s = s\<lparr>keys := (keys s)(''Space'' := False)\<rparr>"
| "handle (ClickStart guardian t) s = (if gameState s = START then startGame guardian t s else s)"
| "handle (ClickRestart t) s = (if gameState s = GAMEOVER then startGame True t s else s)"
| "handle ClickUpgrades s = (if gameState s = START then s\<lparr>gameState := UPGRADE\<rparr> else s)"
| "handle ClickBack s = (if gameState s = UPGRADE then s\<lparr>gameState := START\<rparr> else s)"
| "handle ClickQuit s = (if gameState s = PAUSED then s\<lparr>gameState := START\<rparr> else s)"
| "handle ClickPause s = togglePause s"
| "handle (ClickClaim t) s = (if gameState s = GUARDIAN_RESULT then claimReward t s else s)"
| "handle (ClickBuy k) s = (if gameState s = UPGRADE then buy k s else s)"
| "handle LevelUpTimeout s = s\<lparr>levelUpPending := False\<rparr>"
| "handle AchievementTimeout s = s\<lparr>unlockedAchievement := None\<rparr>"

text \<open>
  The states the program can be in: it starts from what was loaded, and the upgrades that
  were loaded are those a former run has written, which had at least one life, one hit of
  armour and a bullet power that is not negative.
\<close>

definition upgradesOk :: "Upgrades \<Rightarrow> bool" where
  "upgradesOk u = (1 \<le> maxLives u \<and> 1 \<le> armorStrength u \<and> 0 \<le> bulletPower u)"

inductive reachable :: "Game \<Rightarrow> bool" where
  init: "upgradesOk u \<Longrightarrow> reachable (initialGame coins u)"
| step: "reachable s \<Longrightarrow> reachable (handle ev s)"

section \<open>Notions used in the statements\<close>

definition beforeLevelUp :: "Game \<Rightarrow> Env \<Rightarrow> Game \<Rightarrow> Game" where
  \<comment> \<open>steps 1 to 7 of \<open>update\<close>\<close>
  "beforeLevelUp c env s =
     updatePowerUps env (updateEnemies c env (updateBullets c (shoot c env (movePlayer s))))"

definition quietEnv :: "int \<Rightarrow> Env" where
  \<comment> \<open>an environment in which every clock reads \<open>t\<close> and every random draw is \<open>0\<close>\<close>
  "quietEnv t =
     \<lparr>now = t, now_spawn = t, now_end = t, rnd_type = 0, rnd_id = 0, rnd_x = 0,
      rnd_shoot = (\<lambda>i. 0), rnd_coin = (\<lambda>i bi. 0), rnd_scatter_x = (\<lambda>i bi j. 0),
      rnd_scatter_y = (\<lambda>i bi j. 0), rnd_pu_type = 0, rnd_pu_x = 0\<rparr>"

definition freshSession :: "bool \<Rightarrow> Game" where
  \<comment> \<open>a session started at time 0 with the default upgrades and 450 coins\<close>
  "freshSession guardian = startGame guardian 0 (initialGame 450 defaultUpgrades)"

text \<open>
  The result of \<open>Math.random()\<close> is uniform on the interval from 0 to 1. The thresholds of
  \<open>spawnEnemy\<close> are multiples of 1/100, so the type chosen is the same for all rolls of a
  cell \<open>(j/100, (j+1)/100]\<close> (lemma \<open>rollType_cell\<close>), and the probability of a type is
  the number of the 100 cells that choose it, counted at the cell midpoints, in percent.
\<close>

definition cellMid :: "nat \<Rightarrow> real" where
  "cellMid j = (real j + 1 / 2) / 100"

definition typeShare :: "int \<Rightarrow> EnemyType \<Rightarrow> nat" where
  "typeShare lvl k = length (filter (\<lambda>j. rollType lvl (cellMid j) = k) [0..<100])"

text \<open>Predicates that hold during and between frames.\<close>

definition guardianRun :: "int \<Rightarrow> Game \<Rightarrow> bool" where
  "guardianRun l t =
     (lives t = l \<and>
      ((gameState t = PLAYING \<and> escapedEnemies t < 40)
       \<or> (gameState t = GUARDIAN_RESULT \<and> 40 \<le> escapedEnemies t)))"

definition guardianOk :: "Game \<Rightarrow> bool" where
  "guardianOk s =
     ((isGuardianMode s \<and> (gameState s = PLAYING \<or> gameState s = PAUSED)
         \<longrightarrow> escapedEnemies s < 40)
      \<and> (gameState s = GUARDIAN_RESULT \<longrightarrow> isGuardianMode s \<and> 40 \<le> escapedEnemies s))"

definition hitsOk :: "Game \<Rightarrow> Game \<Rightarrow> bool" where
  "hitsOk c t = (0 \<le> playerHits t \<and> playerHits t < armorStrength (upgrades c))"

definition bulletLands :: "Game \<Rightarrow> nat \<Rightarrow> Game \<Rightarrow> bool" where
  \<comment> \<open>the enemy bullet at index \<open>i\<close>, once moved, hits a player who is neither invulnerable
      nor shielded, outside guardian mode: the path of \<open>update\<close> that calls \<open>setPlayerHits\<close>\<close>
  "bulletLands c i s =
     (invulnerable (player s) \<le> 0
      \<and> dist (pl_x (player s) - b_x (moveBullet (enemyBullets s ! i)))
              (pl_y (player s) - b_y (moveBullet (enemyBullets s ! i)))
           < pl_width (player s) / 2
      \<and> \<not> shield (player s) \<and> \<not> isGuardianMode c)"

definition livesRun :: "Game \<Rightarrow> bool" where
  "livesRun t =
     ((1 \<le> lives t \<and> gameState t = PLAYING)
      \<or> (lives t = 0 \<and> gameState t = GAMEOVER \<and> 60 \<le> invulnerable (player t)))"

definition livesOk :: "Game \<Rightarrow> bool" where
  "livesOk s =
     (0 \<le> lives s \<and> (gameState s = PLAYING \<or> gameState s = PAUSED \<longrightarrow> 1 \<le> lives s)
      \<and> 1 \<le> maxLives (upgrades s))"

text \<open>Concrete states for the scenarios.\<close>

definition lateEnemy :: Enemy where
  \<comment> \<open>a BASIC enemy about to leave the playfield\<close>
  "lateEnemy = \<lparr>e_id = 0, e_x = 100, e_y = 699, e_type = BASIC, hp = 1, maxHp = 1,
     e_speed = 2, e_score = 100, e_width = 40, e_height = 40, e_lastShot = Some 0,
     phase = None, moveDir = None\<rparr>"

definition guardianAt39 :: Game where
  \<comment> \<open>a guardian session with 39 escapes and one enemy about to escape\<close>
  "guardianAt39 = (freshSession True)\<lparr>escapedEnemies := 39, enemies := [0],
     eheap := (\<lambda>r. noEnemy)(0 := lateEnemy), nextRef := 1\<rparr>"

definition incomingBullet :: Bullet where
  \<comment> \<open>an enemy bullet one step above the player's start position \<open>(400, 520)\<close>\<close>
  "incomingBullet = \<lparr>b_x = 400, b_y = 515, b_vx = 0, b_vy = 5, b_power = 1, isEnemy = True\<rparr>"

definition fifthHit :: Game where
  \<comment> \<open>armour 5, four hits taken, a bullet about to land\<close>
  "fifthHit = (freshSession False)\<lparr>playerHits := 4, enemyBullets := [incomingBullet]\<rparr>"

definition lastLife :: Game where
  \<comment> \<open>as \<open>fifthHit\<close>, with one life left\<close>
  "lastLife = (freshSession False)\<lparr>lives := 1, playerHits := 4,
     enemyBullets := [incomingBullet]\<rparr>"

text \<open>
  An executable form of the distance test: \<open>dist dx dy < r\<close> holds exactly if \<open>r\<close> is
  positive and the squared distance is below \<open>r * r\<close> (lemma \<open>dist_less_code\<close>).
\<close>

definition distLess :: "real \<Rightarrow> real \<Rightarrow> real \<Rightarrow> bool" where
  "distLess dx dy r = (0 < r \<and> dx * dx + dy * dy < r * r)"

text \<open>
  The invariants of the enemy list: \<open>hpOk\<close> and \<open>bossOk\<close> hold between the callbacks of
  \<open>engine.enemies.forEach\<close>; \<open>hpRun i r\<close> and \<open>bossRun i r\<close> hold inside the callback for the
  index \<open>i\<close>, where \<open>r\<close> is the object the callback was called with: it is still at index
  \<open>i\<close> or it has left the array.
\<close>

definition goodHp :: "Enemy \<Rightarrow> bool" where
  "goodHp e = (0 < hp e \<and> hp e \<le> maxHp e)"

definition hpOk :: "Game \<Rightarrow> bool" where
  "hpOk t =
     (distinct (enemies t) \<and> list_all (\<lambda>q. q < nextRef t \<and> goodHp (eheap t q)) (enemies t)
      \<and> list_all (\<lambda>b. 0 \<le> b_power b) (bullets t))"

definition hpRun :: "nat \<Rightarrow> nat \<Rightarrow> Game \<Rightarrow> bool" where
  \<comment> \<open>inside the callback for index \<open>i\<close> and reference \<open>r\<close>\<close>
  "hpRun i r t =
     (distinct (enemies t)
      \<and> list_all (\<lambda>q. q < nextRef t \<and> (q \<noteq> r \<longrightarrow> goodHp (eheap t q))) (enemies t)
      \<and> list_all (\<lambda>b. 0 \<le> b_power b) (bullets t)
      \<and> (r \<in> set (enemies t) \<longrightarrow>
           goodHp (eheap t r) \<and> i < length (enemies t) \<and> enemies t ! i = r))"

definition hpInv :: "Game \<Rightarrow> bool" where
  "hpInv s = (hpOk s \<and> 0 \<le> bulletPower (upgrades s) \<and> 1 \<le> level s)"

definition isBoss :: "Game \<Rightarrow> nat \<Rightarrow> bool" where
  "isBoss t q = (e_type (eheap t q) = BOSS)"

definition bossCount :: "Game \<Rightarrow> nat" where
  "bossCount t = length (filter (isBoss t) (enemies t))"

definition bossOk :: "Game \<Rightarrow> bool" where
  "bossOk t =
     (distinct (enemies t) \<and> list_all (\<lambda>q. q < nextRef t) (enemies t)
      \<and> (length (enemies t) \<le> 1 \<or> \<not> bossActive t)
      \<and> list_all (\<lambda>q. bossActive t \<or> \<not> isBoss t q) (enemies t))"

definition bossRun :: "nat \<Rightarrow> nat \<Rightarrow> Game \<Rightarrow> bool" where
  "bossRun i r t =
     (bossOk t
      \<and> ((i < length (enemies t) \<and> enemies t ! i = r)
          \<or> (r \<notin> set (enemies t) \<and> (\<not> isBoss t r \<or> \<not> bossActive t))))"

text \<open>More concrete states for the scenarios; the player of a fresh session is at \<open>(400, 520)\<close>.\<close>

definition basicAt :: "real \<Rightarrow> real \<Rightarrow> Enemy" where
  "basicAt x y = \<lparr>e_id = 0, e_x = x, e_y = y, e_type = BASIC, hp = 1, maxHp = 1,
     e_speed = 2, e_score = 100, e_width = 40, e_height = 40, e_lastShot = Some 0,
     phase = None, moveDir = None\<rparr>"

definition heavyAt :: "real \<Rightarrow> real \<Rightarrow> Enemy" where
  "heavyAt x y = \<lparr>e_id = 0, e_x = x, e_y = y, e_type = HEAVY, hp = 3, maxHp = 3,
     e_speed = 1, e_score = 300, e_width = 60, e_height = 50, e_lastShot = Some 0,
     phase = None, moveDir = None\<rparr>"

definition shotAt :: "real \<Rightarrow> real \<Rightarrow> real \<Rightarrow> real \<Rightarrow> Bullet" where
  "shotAt x y vx vy = \<lparr>b_x = x, b_y = y, b_vx = vx, b_vy = vy, b_power = 1, isEnemy = False\<rparr>"

definition spaceHeld :: "string \<Rightarrow> bool" where
  \<comment> \<open>the key state in which only the fire key is down\<close>
  "spaceHeld k = (k = ''Space'')"

definition tripleShotScene :: Game where
  \<comment> \<open>the player holds the fire key with triple-shot charge left; one enemy is 50 pixels
      ahead, another one far away\<close>
  "tripleShotScene = (freshSession False)\<lparr>
     player := (player (freshSession False))\<lparr>tripleShot := 30\<rparr>, keys := spaceHeld,
     enemies := [0, 1],
     eheap := (\<lambda>r. noEnemy)(0 := basicAt 400 470, 1 := basicAt 100 100), nextRef := 2\<rparr>"

definition ramScene :: Game where
  \<comment> \<open>the player holds the fire key; one enemy is about to touch the player\<close>
  "ramScene = (freshSession False)\<lparr>keys := spaceHeld, enemies := [0, 1],
     eheap := (\<lambda>r. noEnemy)(0 := basicAt 400 495, 1 := basicAt 100 100), nextRef := 2\<rparr>"

definition woundedScene :: Game where
  "woundedScene = (freshSession False)\<lparr>enemies := [0, 1],
     eheap := (\<lambda>r. noEnemy)(0 := heavyAt 400 300, 1 := basicAt 200 300), nextRef := 2,
     bullets := [shotAt 400 310 0 (- 12), shotAt 200 310 0 (- 12)]\<rparr>"

definition bossDue :: Game where
  "bossDue = (freshSession False)\<lparr>level := 10\<rparr>"

definition bossFight :: Game where
  "bossFight = spawnEnemy bossDue (quietEnv 0) bossDue"

text \<open>No entry with the id \<open>guardian_hero\<close> is unlocked.\<close>

definition heroLocked :: "Achievement list \<Rightarrow> bool" where
  "heroLocked xs = list_all (\<lambda>a. a_id a \<noteq> ''guardian_hero'' \<or> \<not> unlocked a) xs"

section \<open>Auxiliary facts\<close>

subsection \<open>Loop invariants\<close>

lemma forEach_from_inv:
  assumes "P s" and "\<And>k t. P t \<Longrightarrow> k < len t \<Longrightarrow> P (body k t)"
  shows "P (forEach_from len body n k s)"
  using assms
proof (induction len body n k s rule: forEach_from.induct)
  case (1 len body n k s)
  show ?case
  proof (cases "k < n")
    case True
    have "P (if k < len s then body k s else s)"
      using "1.prems" by auto
    with True "1.IH" "1.prems"(2) show ?thesis
      by (subst forEach_from.simps) simp
  next
    case False
    with "1.prems" show ?thesis by (subst forEach_from.simps) simp
  qed
qed

lemma forEach_inv:
  assumes "P s" and "\<And>k t. P t \<Longrightarrow> k < len t \<Longrightarrow> P (body k t)"
  shows "P (forEach len body s)"
  unfolding forEach_def using assms by (rule forEach_from_inv)

lemma fold_inv:
  assumes "P s" and "\<And>x t. P t \<Longrightarrow> P (f x t)"
  shows "P (fold f xs s)"
  using assms(1) by (induction xs arbitrary: s) (auto intro: assms(2))

subsection \<open>What the helpers leave alone\<close>

lemma unlockAchievement_frame [simp]:
  "level (unlockAchievement a s) = level s"
  "lives (unlockAchievement a s) = lives s"
  "gameState (unlockAchievement a s) = gameState s"
  "playerHits (unlockAchievement a s) = playerHits s"
  "escapedEnemies (unlockAchievement a s) = escapedEnemies s"
  "isGuardianMode (unlockAchievement a s) = isGuardianMode s"
  "upgrades (unlockAchievement a s) = upgrades s"
  "enemies (unlockAchievement a s) = enemies s"
  "eheap (unlockAchievement a s) = eheap s"
  "nextRef (unlockAchievement a s) = nextRef s"
  "bullets (unlockAchievement a s) = bullets s"
  "enemyBullets (unlockAchievement a s) = enemyBullets s"
  "player (unlockAchievement a s) = player s"
  "bossActive (unlockAchievement a s) = bossActive s"
  "score (unlockAchievement a s) = score s"
  "enemiesKilled (unlockAchievement a s) = enemiesKilled s"
  "totalCoins (unlockAchievement a s) = totalCoins s"
  by (simp_all add: unlockAchievement_def Let_def split: option.splits)

lemma spawnPowerUp_frame [simp]:
  "level (spawnPowerUp x y ft tr xr s) = level s"
  "lives (spawnPowerUp x y ft tr xr s) = lives s"
  "gameState (spawnPowerUp x y ft tr xr s) = gameState s"
  "playerHits (spawnPowerUp x y ft tr xr s) = playerHits s"
  "escapedEnemies (spawnPowerUp x y ft tr xr s) = escapedEnemies s"
  "isGuardianMode (spawnPowerUp x y ft tr xr s) = isGuardianMode s"
  "upgrades (spawnPowerUp x y ft tr xr s) = upgrades s"
  "enemies (spawnPowerUp x y ft tr xr s) = enemies s"
  "eheap (spawnPowerUp x y ft tr xr s) = eheap s"
  "nextRef (spawnPowerUp x y ft tr xr s) = nextRef s"
  "bullets (spawnPowerUp x y ft tr xr s) = bullets s"
  "enemyBullets (spawnPowerUp x y ft tr xr s) = enemyBullets s"
  "player (spawnPowerUp x y ft tr xr s) = player s"
  "bossActive (spawnPowerUp x y ft tr xr s) = bossActive s"
  "score (spawnPowerUp x y ft tr xr s) = score s"
  "enemiesKilled (spawnPowerUp x y ft tr xr s) = enemiesKilled s"
  "totalCoins (spawnPowerUp x y ft tr xr s) = totalCoins s"
  by (simp_all add: spawnPowerUp_def Let_def)

lemma fold_bossCoin_frame [simp]:
  "level (fold (bossCoin env i bi e) js s) = level s"
  "lives (fold (bossCoin env i bi e) js s) = lives s"
  "gameState (fold (bossCoin env i bi e) js s) = gameState s"
  "playerHits (fold (bossCoin env i bi e) js s) = playerHits s"
  "escapedEnemies (fold (bossCoin env i bi e) js s) = escapedEnemies s"
  "isGuardianMode (fold (bossCoin env i bi e) js s) = isGuardianMode s"
  "upgrades (fold (bossCoin env i bi e) js s) = upgrades s"
  "enemies (fold (bossCoin env i bi e) js s) = enemies s"
  "eheap (fold (bossCoin env i bi e) js s) = eheap s"
  "nextRef (fold (bossCoin env i bi e) js s) = nextRef s"
  "bullets (fold (bossCoin env i bi e) js s) = bullets s"
  "enemyBullets (fold (bossCoin env i bi e) js s) = enemyBullets s"
  "player (fold (bossCoin env i bi e) js s) = player s"
  "bossActive (fold (bossCoin env i bi e) js s) = bossActive s"
  "score (fold (bossCoin env i bi e) js s) = score s"
  "enemiesKilled (fold (bossCoin env i bi e) js s) = enemiesKilled s"
  "totalCoins (fold (bossCoin env i bi e) js s) = totalCoins s"
  by (rule fold_inv [where P = "\<lambda>t. _ t = _ s"], simp, simp add: bossCoin_def)+

subsection \<open>Invariants of the update\<close>

lemma enemyStep_pres:
  assumes "P s"
    and "\<And>r t. P t \<Longrightarrow> P (enemyMove env r t)"
    and "\<And>r t. P t \<Longrightarrow> P (enemyShoot c env i r t)"
    and "\<And>r t. P t \<Longrightarrow> P (contact c i r t)"
    and "\<And>r bi t. P t \<Longrightarrow> P (bulletVsEnemy c env i r bi t)"
    and "\<And>r t. P t \<Longrightarrow> P (escapeCheck c i r t)"
  shows "P (enemyStep c env i s)"
proof -
  let ?r = "enemies s ! i"
  have "P (contact c i ?r (enemyShoot c env i ?r (enemyMove env ?r s)))"
    by (intro assms(4) assms(3) assms(2) assms(1))
  then have "P (forEach (\<lambda>t. length (bullets t)) (bulletVsEnemy c env i ?r)
      (contact c i ?r (enemyShoot c env i ?r (enemyMove env ?r s))))"
    by (rule forEach_inv [where P = P]) (rule assms(5))
  then show ?thesis
    unfolding enemyStep_def Let_def by (rule assms(6))
qed

lemma powerUpStep_pres:
  assumes "P s"
    and "\<And>p t. P t \<Longrightarrow> P (t\<lparr>powerUps := p\<rparr>)"
    and "\<And>p bi t. P t \<Longrightarrow> P (bulletVsPowerUp p i bi t)"
  shows "P (powerUpStep i s)"
proof -
  let ?p = "(powerUps s ! i)\<lparr>p_y := p_y (powerUps s ! i) + 2\<rparr>"
  have "P (s\<lparr>powerUps := (powerUps s)[i := ?p]\<rparr>)"
    using assms(1) by (rule assms(2))
  then have *: "P (forEach (\<lambda>t. length (bullets t)) (bulletVsPowerUp ?p i)
      (s\<lparr>powerUps := (powerUps s)[i := ?p]\<rparr>))"
    by (rule forEach_inv [where P = P]) (rule assms(3))
  show ?thesis
    unfolding powerUpStep_def Let_def using * assms(2) by simp
qed

lemma update_split:
  "update c env s = endFrame (survivorCheck env (levelUp c (beforeLevelUp c env s)))"
  by (simp add: update_def beforeLevelUp_def)

lemma beforeLevelUp_pres:
  assumes "P s"
    and mv: "\<And>t. P t \<Longrightarrow> P (movePlayer t)"
    and sh: "\<And>t. P t \<Longrightarrow> P (shoot c env t)"
    and bs: "\<And>i t. P t \<Longrightarrow> P (bulletStep i t)"
    and ebs: "\<And>i t. P t \<Longrightarrow> P (enemyBulletStep c i t)"
    and st: "\<And>t. P t \<Longrightarrow> P (spawnTick c env t)"
    and em: "\<And>r t. P t \<Longrightarrow> P (enemyMove env r t)"
    and esh: "\<And>i r t. P t \<Longrightarrow> P (enemyShoot c env i r t)"
    and ct: "\<And>i r t. P t \<Longrightarrow> P (contact c i r t)"
    and bve: "\<And>i r bi t. P t \<Longrightarrow> P (bulletVsEnemy c env i r bi t)"
    and esc: "\<And>i r t. P t \<Longrightarrow> P (escapeCheck c i r t)"
    and put: "\<And>t. P t \<Longrightarrow> P (powerUpTick env t)"
    and pul: "\<And>p t. P t \<Longrightarrow> P (t\<lparr>powerUps := p\<rparr>)"
    and bvp: "\<And>p i bi t. P t \<Longrightarrow> P (bulletVsPowerUp p i bi t)"
  shows "P (beforeLevelUp c env s)"
proof -
  have 1: "P (shoot c env (movePlayer s))"
    by (intro sh mv assms(1))
  have 2: "P (updateBullets c (shoot c env (movePlayer s)))"
    unfolding updateBullets_def
    by (rule forEach_inv [where P = P], rule forEach_inv [where P = P], rule 1, rule bs,
        assumption, rule ebs, assumption)
  have es: "P (enemyStep c env i t)" if "P t" for i t
    using that by (rule enemyStep_pres [where P = P]) (fact em esh ct bve esc)+
  have 3: "P (updateEnemies c env (updateBullets c (shoot c env (movePlayer s))))"
    unfolding updateEnemies_def
    by (rule forEach_inv [where P = P], rule st, rule 2, rule es, assumption)
  have ps: "P (powerUpStep i t)" if "P t" for i t
    using that by (rule powerUpStep_pres [where P = P]) (fact pul bvp)+
  show ?thesis
    unfolding beforeLevelUp_def updatePowerUps_def
    by (rule forEach_inv [where P = P], rule put, rule 3, rule ps, assumption)
qed

lemmas step_defs = movePlayer_def shoot_def bulletStep_def enemyBulletStep_def hitPlayer_def
  loseLife_def spawnTick_def spawnEnemy_def pushEnemy_def enemyMove_def updEnemy_def
  enemyShoot_def contact_def bulletVsEnemy_def killEnemy_def escapeCheck_def powerUpTick_def
  bulletVsPowerUp_def applyPowerUp_def Let_def


lemma level_beforeLevelUp: "level (beforeLevelUp c env s) = level s"
  by (rule beforeLevelUp_pres [where P = "\<lambda>t. level t = level s"])
     (simp_all add: step_defs split: PowerUpType.splits)

lemma dist_less_iff: "0 \<le> r \<Longrightarrow> (dist dx dy < r) = (dx * dx + dy * dy < r * r)"
proof -
  assume r: "0 \<le> r"
  have "(sqrt (dx * dx + dy * dy) < r) = (sqrt (dx * dx + dy * dy) < sqrt (r * r))"
    using r by simp
  also have "\<dots> = (dx * dx + dy * dy < r * r)"
    by (rule real_sqrt_less_iff)
  finally show ?thesis by (simp add: dist_def)
qed

lemma dist_less_code [code_unfold]: "(dist dx dy < r) = distLess dx dy r"
proof (cases "0 < r")
  case True
  then show ?thesis by (simp add: distLess_def dist_less_iff)
next
  case False
  have "0 \<le> dist dx dy" by (simp add: dist_def)
  with False show ?thesis by (simp add: distLess_def)
qed

lemma tick_session_fields:
  "lives (tick env s) = lives (beforeLevelUp s env s)"
  "gameState (tick env s) = gameState (beforeLevelUp s env s)"
  "escapedEnemies (tick env s) = escapedEnemies (beforeLevelUp s env s)"
  "isGuardianMode (tick env s) = isGuardianMode (beforeLevelUp s env s)"
  "playerHits (tick env s) = playerHits (beforeLevelUp s env s)"
  "upgrades (tick env s) = upgrades (beforeLevelUp s env s)"
  by (simp_all add: tick_def update_split endFrame_def survivorCheck_def levelUp_def Let_def)

lemma upgrades_beforeLevelUp: "upgrades (beforeLevelUp c env s) = upgrades s"
  by (rule beforeLevelUp_pres [where P = "\<lambda>t. upgrades t = upgrades s"])
     (simp_all add: step_defs split: PowerUpType.splits)

lemma isGuardianMode_beforeLevelUp: "isGuardianMode (beforeLevelUp c env s) = isGuardianMode s"
  by (rule beforeLevelUp_pres [where P = "\<lambda>t. isGuardianMode t = isGuardianMode s"])
     (simp_all add: step_defs split: PowerUpType.splits)

lemma guardian_lives_beforeLevelUp:
  assumes "isGuardianMode c"
  shows "lives (beforeLevelUp c env s) = lives s"
  by (rule beforeLevelUp_pres [where P = "\<lambda>t. lives t = lives s"])
     (simp_all add: step_defs assms split: PowerUpType.splits)

lemma reachable_freshSession: "reachable (freshSession g)"
proof -
  have "reachable (initialGame 450 defaultUpgrades)"
    by (rule reachable.init) (simp add: upgradesOk_def defaultUpgrades_def)
  then have "reachable (handle (ClickStart g 0) (initialGame 450 defaultUpgrades))"
    by (rule reachable.step)
  then show ?thesis by (simp add: freshSession_def initialGame_def)
qed

section \<open>Splicing during a scan\<close>

lemma set_splice1: "x \<in> set (splice1 i xs) \<Longrightarrow> x \<in> set xs"
  by (auto simp: splice1_def dest: in_set_takeD in_set_dropD)

lemma list_all_splice1: "list_all P xs \<Longrightarrow> list_all P (splice1 i xs)"
  by (auto simp: list_all_iff dest: set_splice1)

lemma distinct_splice1: "distinct xs \<Longrightarrow> distinct (splice1 i xs)"
  by (auto simp: splice1_def dest: set_take_disj_set_drop_if_distinct [of xs i "Suc i"] 
      in_set_takeD in_set_dropD distinct_take distinct_drop)

lemma nth_notin_splice1:
  assumes "distinct xs" and "i < length xs"
  shows "xs ! i \<notin> set (splice1 i xs)"
proof -
  have "xs = take i xs @ xs ! i # drop (Suc i) xs"
    using assms(2) by (simp add: id_take_nth_drop)
  then have "distinct (take i xs @ xs ! i # drop (Suc i) xs)"
    using assms(1) by simp
  then show ?thesis by (auto simp: splice1_def)
qed

lemma notin_splice1:
  assumes "distinct xs" and "r \<in> set xs \<longrightarrow> i < length xs \<and> xs ! i = r"
  shows "r \<notin> set (splice1 i xs)"
  using assms nth_notin_splice1 [of xs i] set_splice1 [of r i xs] by auto

lemma list_all_update:
  assumes "list_all Q xs" and "\<And>x. Q x \<Longrightarrow> Q (f x)"
  shows "list_all Q (xs[i := f (xs ! i)])"
proof (cases "i < length xs")
  case True
  with assms show ?thesis
    by (auto simp: list_all_iff dest!: set_update_subset_insert [THEN subsetD])
next
  case False
  then have "xs[i := f (xs ! i)] = xs" by (simp add: list_update_beyond)
  with assms(1) show ?thesis by simp
qed

lemma beforeLevelUp_pres_idx:
  assumes "P s"
    and mv: "\<And>t. P t \<Longrightarrow> P (movePlayer t)"
    and sh: "\<And>t. P t \<Longrightarrow> P (shoot c env t)"
    and bs: "\<And>i t. P t \<Longrightarrow> P (bulletStep i t)"
    and ebs: "\<And>i t. P t \<Longrightarrow> P (enemyBulletStep c i t)"
    and st: "\<And>t. P t \<Longrightarrow> P (spawnTick c env t)"
    and es: "\<And>i t. P t \<Longrightarrow> i < length (enemies t) \<Longrightarrow> P (enemyStep c env i t)"
    and put: "\<And>t. P t \<Longrightarrow> P (powerUpTick env t)"
    and pul: "\<And>p t. P t \<Longrightarrow> P (t\<lparr>powerUps := p\<rparr>)"
    and bvp: "\<And>p i bi t. P t \<Longrightarrow> P (bulletVsPowerUp p i bi t)"
  shows "P (beforeLevelUp c env s)"
proof -
  have 1: "P (shoot c env (movePlayer s))"
    by (intro sh mv assms(1))
  have 2: "P (updateBullets c (shoot c env (movePlayer s)))"
    unfolding updateBullets_def
    by (rule forEach_inv [where P = P], rule forEach_inv [where P = P], rule 1, rule bs,
        assumption, rule ebs, assumption)
  have 3: "P (updateEnemies c env (updateBullets c (shoot c env (movePlayer s))))"
    unfolding updateEnemies_def
    by (rule forEach_inv [where P = P], rule st, rule 2, rule es, assumption, assumption)
  have ps: "P (powerUpStep i t)" if "P t" for i t
    using that by (rule powerUpStep_pres [where P = P]) (fact pul bvp)+
  show ?thesis
    unfolding beforeLevelUp_def updatePowerUps_def
    by (rule forEach_inv [where P = P], rule put, rule 3, rule ps, assumption)
qed

lemma killEnemy_fields [simp]:
  "enemies (killEnemy env i r bi t) = splice1 i (enemies t)"
  "eheap (killEnemy env i r bi t) = eheap t"
  "nextRef (killEnemy env i r bi t) = nextRef t"
  "bullets (killEnemy env i r bi t) = bullets t"
  "bossActive (killEnemy env i r bi t) = (bossActive t \<and> e_type (eheap t r) \<noteq> BOSS)"
  by (simp_all add: killEnemy_def Let_def)

section \<open>Removal during the scan (C1)\<close>

text \<open>
  C1. The claim is that removing an entity in the middle of a scan neither skips nor
  processes twice, and that each destroyed enemy is scored and counted exactly once.
  \<open>tripleShotScene\<close>: the player fires a triple shot at an enemy with 1 hit point and a
  score of 100 that is 50 pixels ahead; a second enemy is far away. The first bullet
  destroys the enemy; removing the bullet moves the third bullet to the index the scan
  visits next, it hits the destroyed enemy again, and the second \<open>splice(i, 1)\<close> removes the
  other enemy, which was never hit and is never visited: the score is 200, two kills are
  counted, and the enemy list is empty.
\<close>

theorem triple_shot_counts_kill_twice:
  "score tripleShotScene = 0 \<and> enemiesKilled tripleShotScene = 0
   \<and> bullets tripleShotScene = []
   \<and> map (\<lambda>r. e_score (eheap tripleShotScene r)) (enemies tripleShotScene) = [100, 100]
   \<and> map (\<lambda>r. hp (eheap tripleShotScene r)) (enemies tripleShotScene) = [1, 1]
   \<and> score (tick (quietEnv 1000) tripleShotScene) = 200
   \<and> enemiesKilled (tick (quietEnv 1000) tripleShotScene) = 2
   \<and> enemies (tick (quietEnv 1000) tripleShotScene) = []
   \<and> hp (eheap (tick (quietEnv 1000) tripleShotScene) 1) = 1"
  by code_simp

text \<open>
  \<open>ramScene\<close>: an enemy touches the player while the bullet just fired is on it. The contact
  removes the enemy and takes a life; the bullet check of the same callback then destroys
  it again, adds its score, counts a kill and removes the other enemy.
\<close>

lemma ram_then_shot:
  "lives ramScene = 3 \<and> score ramScene = 0
   \<and> lives (tick (quietEnv 1000) ramScene) = 2
   \<and> score (tick (quietEnv 1000) ramScene) = 100
   \<and> enemiesKilled (tick (quietEnv 1000) ramScene) = 1
   \<and> enemies (tick (quietEnv 1000) ramScene) = []
   \<and> hp (eheap (tick (quietEnv 1000) ramScene) 1) = 1"
  by code_simp

section \<open>Hit points of the enemies (C2)\<close>

lemma hpRun_enemyMove: "hpRun i r t \<Longrightarrow> hpRun i r (enemyMove env r t)"
  by (auto simp: hpRun_def enemyMove_def updEnemy_def Let_def goodHp_def list_all_iff)

lemma hpRun_enemyShoot: "hpRun i r t \<Longrightarrow> hpRun i r (enemyShoot c env i r t)"
  by (auto simp: hpRun_def enemyShoot_def updEnemy_def Let_def goodHp_def list_all_iff)

lemma hpRun_contact: "hpRun i r t \<Longrightarrow> hpRun i r (contact c i r t)"
  by (auto simp: hpRun_def contact_def loseLife_def Let_def list_all_iff distinct_splice1
      notin_splice1 dest: set_splice1)

lemma hpRun_escapeCheck: "hpRun i r t \<Longrightarrow> hpRun i r (escapeCheck c i r t)"
  by (auto simp: hpRun_def escapeCheck_def Let_def list_all_iff distinct_splice1
      notin_splice1 dest: set_splice1)

lemma hpRun_bulletVsEnemy:
  assumes "hpRun i r t" and "bi < length (bullets t)" and "0 \<le> bulletPower (upgrades c)"
  shows "hpRun i r (bulletVsEnemy c env i r bi t)"
proof -
  have "0 \<le> b_power (bullets t ! bi)"
    using assms(1,2) by (simp add: hpRun_def list_all_length)
  then have "0 \<le> b_power (bullets t ! bi) * bulletPower (upgrades c)"
    using assms(3) by simp
  with assms(1) show ?thesis
    by (auto simp: hpRun_def bulletVsEnemy_def updEnemy_def Let_def goodHp_def list_all_iff
        distinct_splice1 notin_splice1 dest: set_splice1)
qed

lemma hpOk_enemyStep:
  assumes "hpOk t" and "i < length (enemies t)" and "0 \<le> bulletPower (upgrades c)"
  shows "hpOk (enemyStep c env i t)"
proof -
  let ?r = "enemies t ! i"
  have 0: "hpRun i ?r t"
    using assms(1,2) by (auto simp: hpOk_def hpRun_def list_all_iff)
  have 1: "hpRun i ?r (contact c i ?r (enemyShoot c env i ?r (enemyMove env ?r t)))"
    by (intro hpRun_contact hpRun_enemyShoot hpRun_enemyMove 0)
  have 2: "hpRun i ?r (forEach (\<lambda>t. length (bullets t)) (bulletVsEnemy c env i ?r)
      (contact c i ?r (enemyShoot c env i ?r (enemyMove env ?r t))))"
    using 1 by (rule forEach_inv [where P = "hpRun i ?r"])
      (rule hpRun_bulletVsEnemy, assumption, assumption, rule assms(3))
  have "hpRun i ?r (enemyStep c env i t)"
    unfolding enemyStep_def Let_def using 2 by (rule hpRun_escapeCheck)
  then show ?thesis
    by (auto simp: hpOk_def hpRun_def list_all_iff)
qed

lemma applyPowerUp_fields [simp]:
  "enemies (applyPowerUp p t) = enemies t"
  "eheap (applyPowerUp p t) = eheap t"
  "nextRef (applyPowerUp p t) = nextRef t"
  "bullets (applyPowerUp p t) = bullets t"
  "bossActive (applyPowerUp p t) = bossActive t"
  by (simp_all add: applyPowerUp_def Let_def split: PowerUpType.splits)

lemma hpOk_bulletStep: "hpOk t \<Longrightarrow> hpOk (bulletStep i t)"
  using list_all_update [of "\<lambda>b. 0 \<le> b_power b" "bullets t" moveBullet i]
  by (auto simp: hpOk_def bulletStep_def Let_def moveBullet_def intro: list_all_splice1)

lemma goodHp_normalEnemy: "goodHp (normalEnemy lvl env)"
  by (simp add: goodHp_def normalEnemy_def Let_def split: EnemyType.splits)

lemma goodHp_bossEnemy: "1 \<le> lvl \<Longrightarrow> goodHp (bossEnemy lvl env)"
  by (simp add: goodHp_def bossEnemy_def)

lemma hpOk_pushEnemy: "hpOk t \<Longrightarrow> goodHp e \<Longrightarrow> hpOk (pushEnemy e t)"
  by (auto simp: hpOk_def pushEnemy_def list_all_iff)

lemma hpOk_spawnTick:
  assumes "hpOk t" and "1 \<le> level c"
  shows "hpOk (spawnTick c env t)"
proof -
  have a: "hpOk (t\<lparr>enemySpawnTimer := x\<rparr>)" for x
    using assms(1) by (simp add: hpOk_def)
  have b: "hpOk (u\<lparr>enemySpawnTimer := 0\<rparr>)" if "hpOk u" for u
    using that by (simp add: hpOk_def)
  have c: "hpOk (u\<lparr>bossActive := True\<rparr>)" if "hpOk u" for u
    using that by (simp add: hpOk_def)
  show ?thesis
    unfolding spawnTick_def spawnEnemy_def Let_def
    by (auto intro!: a b c hpOk_pushEnemy goodHp_normalEnemy goodHp_bossEnemy assms(2))
qed

lemma hpOk_beforeLevelUp:
  assumes "hpOk s" and "0 \<le> bulletPower (upgrades c)" and "1 \<le> level c"
  shows "hpOk (beforeLevelUp c env s)"
  using assms(1)
proof (rule beforeLevelUp_pres_idx [where P = hpOk])
  show "hpOk (movePlayer t)" if "hpOk t" for t
    using that by (simp add: hpOk_def movePlayer_def Let_def)
  show "hpOk (shoot c env t)" if "hpOk t" for t
    using that by (simp add: hpOk_def shoot_def playerBullet_def Let_def)
  show "hpOk (bulletStep i t)" if "hpOk t" for i t
    using that by (rule hpOk_bulletStep)
  show "hpOk (enemyBulletStep c i t)" if "hpOk t" for i t
    using that by (simp add: hpOk_def enemyBulletStep_def hitPlayer_def loseLife_def Let_def)
  show "hpOk (spawnTick c env t)" if "hpOk t" for t
    using that assms(3) by (rule hpOk_spawnTick)
  show "hpOk (enemyStep c env i t)" if "hpOk t" and "i < length (enemies t)" for i t
    using that assms(2) by (rule hpOk_enemyStep)
  show "hpOk (powerUpTick env t)" if "hpOk t" for t
    using that by (simp add: hpOk_def powerUpTick_def Let_def)
  show "hpOk (t\<lparr>powerUps := p\<rparr>)" if "hpOk t" for p t
    using that by (simp add: hpOk_def)
  show "hpOk (bulletVsPowerUp p i bi t)" if "hpOk t" for p i bi t
    using that by (auto simp: hpOk_def bulletVsPowerUp_def Let_def intro: list_all_splice1)
qed

lemma hpOk_tick:
  assumes "hpOk s" and "0 \<le> bulletPower (upgrades s)" and "1 \<le> level s"
  shows "hpOk (tick env s)"
  using hpOk_beforeLevelUp [OF assms, of env]
  by (simp add: tick_def update_split endFrame_def survivorCheck_def levelUp_def Let_def
      hpOk_def)

lemma level_tick: "level s \<le> level (tick env s)"
  by (simp add: tick_def update_split endFrame_def survivorCheck_def levelUp_def Let_def
      level_beforeLevelUp)

lemma hpInv_reachable: "reachable s \<Longrightarrow> hpInv s"
proof (induction rule: reachable.induct)
  case (init u coins)
  then show ?case by (simp add: hpInv_def hpOk_def initialGame_def upgradesOk_def)
next
  case (step s ev)
  show ?case
  proof (cases ev)
    case (Frame env)
    with step.IH hpOk_tick [of s env] level_tick [of s env] show ?thesis
      by (auto simp: hpInv_def tick_session_fields upgrades_beforeLevelUp)
  next
    case (ClickBuy k)
    with step.IH show ?thesis
      by (cases k) (auto simp: hpInv_def hpOk_def buy_def applyUpgrade_def)
  qed (use step.IH in \<open>auto simp: hpInv_def hpOk_def startGame_def togglePause_def
         claimReward_def handleTouchMove_def Let_def\<close>)
qed

text \<open>
  C2. In every reachable state each enemy of the list has hit points above 0 and at most
  \<open>maxHp\<close>. A frame keeps this (together with the facts it rests on: the references of the
  list are distinct and allocated, no bullet has negative power, the bullet-power upgrade
  is not negative, the level is at least 1); so an enemy whose hit points reach 0 or less
  is not in the list at the end of that frame.
\<close>

theorem enemy_hp_bounds:
  "(reachable s \<longrightarrow> list_all (\<lambda>r. goodHp (eheap s r)) (enemies s))
   \<and> (hpOk s \<and> 0 \<le> bulletPower (upgrades s) \<and> 1 \<le> level s \<longrightarrow>
        hpOk (tick env s) \<and> list_all (\<lambda>r. goodHp (eheap (tick env s) r)) (enemies (tick env s)))"
  using hpInv_reachable [of s] hpOk_tick [of s env]
  by (auto simp: hpInv_def hpOk_def list_all_iff)

text \<open>
  A frame in which a HEAVY enemy is hit (3 to 2 hit points, it stays) and a BASIC enemy is
  destroyed (1 to 0 hit points, it leaves the list).
\<close>

theorem enemy_hp_bounds_witness:
  "hpOk woundedScene \<and> 0 \<le> bulletPower (upgrades woundedScene) \<and> 1 \<le> level woundedScene
   \<and> enemies (tick (quietEnv 0) woundedScene) = [0]
   \<and> hp (eheap (tick (quietEnv 0) woundedScene) 0) = 2
   \<and> hp (eheap (tick (quietEnv 0) woundedScene) 1) = 0
   \<and> list_all (\<lambda>r. goodHp (eheap (tick (quietEnv 0) woundedScene) r))
        (enemies (tick (quietEnv 0) woundedScene))
   \<and> reachable (freshSession False)
   \<and> list_all (\<lambda>r. goodHp (eheap (freshSession False) r)) (enemies (freshSession False))"
proof -
  have h: "hpOk woundedScene" "0 \<le> bulletPower (upgrades woundedScene)"
    "1 \<le> level woundedScene"
    by code_simp+
  have v: "enemies (tick (quietEnv 0) woundedScene) = [0]"
    "hp (eheap (tick (quietEnv 0) woundedScene) 0) = 2"
    "hp (eheap (tick (quietEnv 0) woundedScene) 1) = 0"
    by code_simp+
  show ?thesis
    using enemy_hp_bounds [of woundedScene "quietEnv 0"] enemy_hp_bounds [of "freshSession False"]
      h v reachable_freshSession [of False]
    by simp
qed

section \<open>Armour hits (C3)\<close>

lemma hitsOk_beforeLevelUp:
  assumes "hitsOk c s"
  shows "hitsOk c (beforeLevelUp c env s)"
  using assms
  by (rule beforeLevelUp_pres [where P = "hitsOk c"])
     (auto simp: hitsOk_def step_defs split: PowerUpType.splits)

lemma hitsOk_reachable: "reachable s \<Longrightarrow> hitsOk s s"
proof (induction rule: reachable.induct)
  case (init u coins)
  then show ?case by (simp add: hitsOk_def initialGame_def upgradesOk_def)
next
  case (step s ev)
  show ?case
  proof (cases ev)
    case (Frame env)
    from hitsOk_beforeLevelUp [OF step.IH, of env] Frame step.IH show ?thesis
      by (simp add: hitsOk_def tick_session_fields upgrades_beforeLevelUp)
  next
    case (ClickBuy k)
    with step.IH show ?thesis
      by (cases k) (auto simp: hitsOk_def buy_def applyUpgrade_def)
  qed (use step.IH in \<open>auto simp: hitsOk_def startGame_def togglePause_def
         claimReward_def handleTouchMove_def Let_def\<close>)
qed

text \<open>
  C3. In every reachable state \<open>playerHits\<close> is at least 0 and below \<open>armorStrength\<close>. When
  an enemy bullet lands while \<open>playerHits\<close> is \<open>armorStrength - 1\<close>, the same step of the
  enemy-bullet pass sets \<open>playerHits\<close> to 0 and takes exactly one life.
\<close>

theorem player_hits:
  "(reachable s \<longrightarrow> 0 \<le> playerHits s \<and> playerHits s < armorStrength (upgrades s))
   \<and> (bulletLands c i s \<and> playerHits s = armorStrength (upgrades c) - 1 \<longrightarrow>
        playerHits (enemyBulletStep c i s) = 0 \<and> lives (enemyBulletStep c i s) = lives s - 1)"
proof -
  have "playerHits (enemyBulletStep c i s) = 0 \<and> lives (enemyBulletStep c i s) = lives s - 1"
    if "bulletLands c i s" and "playerHits s = armorStrength (upgrades c) - 1"
    using that by (simp add: bulletLands_def enemyBulletStep_def hitPlayer_def loseLife_def Let_def)
  then show ?thesis
    using hitsOk_reachable [of s] by (auto simp: hitsOk_def)
qed

lemma fifthHit_frame:
  "playerHits (tick (quietEnv 0) fifthHit) = 0 \<and> lives (tick (quietEnv 0) fifthHit) = 2"
  by code_simp

text \<open>The scenario of the claim: armour 5, four hits taken, one more bullet lands.\<close>

theorem player_hits_witness:
  "bulletLands fifthHit 0 fifthHit \<and> armorStrength (upgrades fifthHit) = 5
   \<and> playerHits fifthHit = 4 \<and> lives fifthHit = 3
   \<and> playerHits (enemyBulletStep fifthHit 0 fifthHit) = 0
   \<and> lives (enemyBulletStep fifthHit 0 fifthHit) = 2
   \<and> reachable (freshSession False) \<and> playerHits (freshSession False) = 0
   \<and> armorStrength (upgrades (freshSession False)) = 5"
proof -
  have h: "bulletLands fifthHit 0 fifthHit" "armorStrength (upgrades fifthHit) = 5"
    "playerHits fifthHit = 4" "lives fifthHit = 3"
    by code_simp+
  have f: "playerHits (freshSession False) = 0"
    "armorStrength (upgrades (freshSession False)) = 5"
    by (simp_all add: freshSession_def startGame_def initialGame_def defaultUpgrades_def)
  show ?thesis
    using player_hits [of fifthHit fifthHit 0] player_hits [of "freshSession False"]
      h f reachable_freshSession [of False]
    by simp
qed

section \<open>Lives (C4)\<close>

lemma livesRun_beforeLevelUp:
  assumes "\<not> isGuardianMode c" and "livesRun s"
  shows "livesRun (beforeLevelUp c env s)"
  using assms(2)
  by (rule beforeLevelUp_pres [where P = livesRun])
     (auto simp: livesRun_def step_defs assms(1) split: PowerUpType.splits)

lemma lives_tick:
  assumes "gameState s = PLAYING" and "1 \<le> lives s"
  shows "0 \<le> lives (tick env s)
    \<and> (gameState (tick env s) = PLAYING \<or> gameState (tick env s) = PAUSED
         \<longrightarrow> 1 \<le> lives (tick env s))
    \<and> (lives (tick env s) < 1 \<longrightarrow> gameState (tick env s) = GAMEOVER)"
proof (cases "isGuardianMode s")
  case True
  from guardian_lives_beforeLevelUp [OF True, of env s] assms show ?thesis
    by (simp add: tick_session_fields)
next
  case False
  from assms have "livesRun s" by (simp add: livesRun_def)
  from livesRun_beforeLevelUp [OF False this, of env] show ?thesis
    by (auto simp: livesRun_def tick_session_fields)
qed

lemma livesOk_reachable: "reachable s \<Longrightarrow> livesOk s"
proof (induction rule: reachable.induct)
  case (init u coins)
  then show ?case by (simp add: livesOk_def initialGame_def upgradesOk_def)
next
  case (step s ev)
  show ?case
  proof (cases ev)
    case (Frame env)
    with step.IH lives_tick [of s env] show ?thesis
      by (auto simp: livesOk_def tick_session_fields upgrades_beforeLevelUp)
  next
    case (ClickBuy k)
    with step.IH show ?thesis
      by (cases k) (auto simp: livesOk_def buy_def applyUpgrade_def)
  qed (use step.IH in \<open>auto simp: livesOk_def startGame_def togglePause_def
         claimReward_def handleTouchMove_def Let_def\<close>)
qed

text \<open>
  C4. In every reachable state the lives are not negative, and at least 1 while the session
  is \<open>PLAYING\<close>. A frame that starts with at least one life leaves the lives non-negative,
  and if it leaves fewer than one life, it has set the state to \<open>GAMEOVER\<close>.
\<close>

theorem lives_never_negative:
  "(reachable s \<longrightarrow> 0 \<le> lives s \<and> (gameState s = PLAYING \<longrightarrow> 1 \<le> lives s))
   \<and> (gameState s = PLAYING \<and> 1 \<le> lives s \<longrightarrow>
        0 \<le> lives (tick env s)
        \<and> (lives (tick env s) < 1 \<longrightarrow> gameState (tick env s) = GAMEOVER))"
  using livesOk_reachable [of s] lives_tick [of s env]
  by (auto simp: livesOk_def)

lemma lastLife_frame: "lives (tick (quietEnv 0) lastLife) = 0"
  by code_simp

text \<open>The frame that takes the last life ends the game.\<close>

theorem lives_never_negative_witness:
  "gameState lastLife = PLAYING \<and> lives lastLife = 1
   \<and> lives (tick (quietEnv 0) lastLife) = 0
   \<and> gameState (tick (quietEnv 0) lastLife) = GAMEOVER
   \<and> reachable (freshSession False) \<and> gameState (freshSession False) = PLAYING
   \<and> lives (freshSession False) = 3"
proof -
  have h: "gameState lastLife = PLAYING" "lives lastLife = 1"
    by (simp_all add: lastLife_def freshSession_def startGame_def initialGame_def)
  have f: "gameState (freshSession False) = PLAYING" "lives (freshSession False) = 3"
    by (simp_all add: freshSession_def startGame_def initialGame_def defaultUpgrades_def)
  show ?thesis
    using lives_never_negative [of lastLife "quietEnv 0"]
      lives_never_negative [of "freshSession False"]
      h f lastLife_frame reachable_freshSession [of False]
    by simp
qed

section \<open>The boss (C5)\<close>

lemma bossRun_enemyMove: "bossRun i r t \<Longrightarrow> bossRun i r (enemyMove env r t)"
  by (auto simp: bossRun_def bossOk_def isBoss_def enemyMove_def updEnemy_def Let_def list_all_iff)

lemma bossRun_enemyShoot: "bossRun i r t \<Longrightarrow> bossRun i r (enemyShoot c env i r t)"
  by (auto simp: bossRun_def bossOk_def isBoss_def enemyShoot_def updEnemy_def Let_def list_all_iff)

lemma length_splice1: "length (splice1 i xs) \<le> length xs"
  by (simp add: splice1_def)

lemma splice1_single: "length xs \<le> 1 \<Longrightarrow> i < length xs \<Longrightarrow> splice1 i xs = []"
  by (cases xs) (auto simp: splice1_def)

lemma bossOk_splice: "bossOk t \<Longrightarrow> bossOk (t\<lparr>enemies := splice1 i (enemies t)\<rparr>)"
  using length_splice1 [of i "enemies t"]
  by (auto simp: bossOk_def isBoss_def list_all_iff distinct_splice1 dest: set_splice1)

lemma bossRun_splice:
  assumes "bossRun i r t" and "\<not> isBoss t r \<or> \<not> bossActive t"
  shows "bossRun i r (t\<lparr>enemies := splice1 i (enemies t)\<rparr>)"
proof -
  have "r \<notin> set (splice1 i (enemies t))"
    using assms(1) by (intro notin_splice1) (auto simp: bossRun_def bossOk_def)
  with assms bossOk_splice [of t i] show ?thesis
    by (auto simp: bossRun_def isBoss_def)
qed

lemma bossRun_fields:
  assumes "enemies a = enemies b" and "nextRef a = nextRef b" and "bossActive a = bossActive b"
    and "\<And>q. e_type (eheap a q) = e_type (eheap b q)"
  shows "bossRun i r a = bossRun i r b"
  using assms by (simp add: bossRun_def bossOk_def isBoss_def)

lemma bossRun_contact: "bossRun i r t \<Longrightarrow> bossRun i r (contact c i r t)"
proof -
  assume a: "bossRun i r t"
  show ?thesis
  proof (cases "enemies (contact c i r t) = enemies t")
    case True
    have "bossRun i r (contact c i r t) = bossRun i r t"
      by (rule bossRun_fields) (simp_all add: True, simp_all add: contact_def loseLife_def Let_def)
    with a show ?thesis by simp
  next
    case False
    then have nb: "\<not> isBoss t r"
      by (auto simp: contact_def loseLife_def Let_def isBoss_def split: if_splits)
    have e: "enemies (contact c i r t) = splice1 i (enemies t)"
      using False by (auto simp: contact_def loseLife_def Let_def split: if_splits)
    have "bossRun i r (contact c i r t) = bossRun i r (t\<lparr>enemies := splice1 i (enemies t)\<rparr>)"
      by (rule bossRun_fields) (simp_all add: e, simp_all add: contact_def loseLife_def Let_def)
    with bossRun_splice [OF a] nb show ?thesis by simp
  qed
qed

lemma bossRun_killEnemy:
  assumes "bossRun i r t"
  shows "bossRun i r (killEnemy env i r bi t)"
proof (cases "isBoss t r")
  case False
  have "bossRun i r (killEnemy env i r bi t) = bossRun i r (t\<lparr>enemies := splice1 i (enemies t)\<rparr>)"
    using False by (intro bossRun_fields) (simp_all add: isBoss_def)
  with bossRun_splice [OF assms] False show ?thesis by simp
next
  case True
  have no: "splice1 i (enemies t) = [] \<or> \<not> bossActive t"
  proof (cases "r \<in> set (enemies t)")
    case True
    with assms \<open>isBoss t r\<close> have "bossActive t" "i < length (enemies t)"
      by (auto simp: bossRun_def bossOk_def list_all_iff)
    with assms have "length (enemies t) \<le> 1" by (simp add: bossRun_def bossOk_def)
    with \<open>i < length (enemies t)\<close> show ?thesis by (simp add: splice1_single)
  next
    case False
    with assms \<open>isBoss t r\<close> show ?thesis by (auto simp: bossRun_def)
  qed
  have nin: "r \<notin> set (splice1 i (enemies t))"
    using assms by (intro notin_splice1) (auto simp: bossRun_def bossOk_def)
  have ok: "bossOk (t\<lparr>enemies := splice1 i (enemies t)\<rparr>)"
    using assms by (intro bossOk_splice) (simp add: bossRun_def)
  show ?thesis
    using no nin ok True
    by (auto simp: bossRun_def bossOk_def isBoss_def list_all_iff)
qed

lemma bossRun_bulletVsEnemy: "bossRun i r t \<Longrightarrow> bossRun i r (bulletVsEnemy c env i r bi t)"
proof -
  assume a: "bossRun i r t"
  let ?u = "(updEnemy r (\<lambda>e. e\<lparr>hp := hp e - b_power (bullets t ! bi) * bulletPower (upgrades c)\<rparr>) t)
      \<lparr>bullets := splice1 bi (bullets t)\<rparr>"
  have "bossRun i r ?u = bossRun i r t"
    by (rule bossRun_fields) (simp_all add: updEnemy_def)
  with a have u: "bossRun i r ?u" by simp
  from a u bossRun_killEnemy [OF u] show ?thesis
    by (simp add: bulletVsEnemy_def Let_def updEnemy_def)
qed

lemma bossOk_escapeCheck: "bossRun i r t \<Longrightarrow> bossOk (escapeCheck c i r t)"
  using bossOk_splice [of t i]
  by (auto simp: bossRun_def bossOk_def isBoss_def escapeCheck_def Let_def)

lemma bossOk_enemyStep:
  assumes "bossOk t" and "i < length (enemies t)"
  shows "bossOk (enemyStep c env i t)"
proof -
  let ?r = "enemies t ! i"
  have 0: "bossRun i ?r t"
    using assms by (simp add: bossRun_def)
  have 1: "bossRun i ?r (contact c i ?r (enemyShoot c env i ?r (enemyMove env ?r t)))"
    by (intro bossRun_contact bossRun_enemyShoot bossRun_enemyMove 0)
  have 2: "bossRun i ?r (forEach (\<lambda>t. length (bullets t)) (bulletVsEnemy c env i ?r)
      (contact c i ?r (enemyShoot c env i ?r (enemyMove env ?r t))))"
    using 1 by (rule forEach_inv [where P = "bossRun i ?r"]) (rule bossRun_bulletVsEnemy)
  show ?thesis
    unfolding enemyStep_def Let_def using 2 by (rule bossOk_escapeCheck)
qed

lemma rollType_not_boss: "rollType lvl r \<noteq> BOSS"
  by (simp add: rollType_def)

lemma normalEnemy_type: "e_type (normalEnemy lvl env) = rollType lvl (rnd_type env)"
  by (simp add: normalEnemy_def Let_def)

lemma bossOk_spawnEnemy: "bossOk t \<Longrightarrow> bossOk (spawnEnemy c env t)"
  using rollType_not_boss [of "level c" "rnd_type env"]
  by (auto simp: bossOk_def isBoss_def spawnEnemy_def pushEnemy_def normalEnemy_type
      list_all_iff)

lemma bossOk_spawnTick: "bossOk t \<Longrightarrow> bossOk (spawnTick c env t)"
proof -
  assume a: "bossOk t"
  have f: "bossOk (u\<lparr>enemySpawnTimer := x\<rparr>) = bossOk u" for u x
    by (simp add: bossOk_def isBoss_def)
  show ?thesis
    unfolding spawnTick_def Let_def using a by (simp add: f bossOk_spawnEnemy)
qed

lemma bossOk_beforeLevelUp:
  assumes "bossOk s"
  shows "bossOk (beforeLevelUp c env s)"
  using assms
proof (rule beforeLevelUp_pres_idx [where P = bossOk])
  show "bossOk (movePlayer t)" if "bossOk t" for t
    using that by (simp add: bossOk_def isBoss_def movePlayer_def Let_def)
  show "bossOk (shoot c env t)" if "bossOk t" for t
    using that by (simp add: bossOk_def isBoss_def shoot_def Let_def)
  show "bossOk (bulletStep i t)" if "bossOk t" for i t
    using that by (simp add: bossOk_def isBoss_def bulletStep_def Let_def)
  show "bossOk (enemyBulletStep c i t)" if "bossOk t" for i t
    using that
    by (simp add: bossOk_def isBoss_def enemyBulletStep_def hitPlayer_def loseLife_def Let_def)
  show "bossOk (spawnTick c env t)" if "bossOk t" for t
    using that by (rule bossOk_spawnTick)
  show "bossOk (enemyStep c env i t)" if "bossOk t" and "i < length (enemies t)" for i t
    using that by (rule bossOk_enemyStep)
  show "bossOk (powerUpTick env t)" if "bossOk t" for t
    using that by (simp add: bossOk_def isBoss_def powerUpTick_def Let_def)
  show "bossOk (t\<lparr>powerUps := p\<rparr>)" if "bossOk t" for p t
    using that by (simp add: bossOk_def isBoss_def)
  show "bossOk (bulletVsPowerUp p i bi t)" if "bossOk t" for p i bi t
    using that by (simp add: bossOk_def isBoss_def bulletVsPowerUp_def Let_def)
qed

lemma bossOk_tick: "bossOk s \<Longrightarrow> bossOk (tick env s)"
  using bossOk_beforeLevelUp [of s s env]
  by (simp add: tick_def update_split endFrame_def survivorCheck_def levelUp_def Let_def
      bossOk_def isBoss_def)

lemma bossOk_reachable: "reachable s \<Longrightarrow> bossOk s"
proof (induction rule: reachable.induct)
  case (init u coins)
  then show ?case by (simp add: bossOk_def initialGame_def)
next
  case (step s ev)
  show ?case
  proof (cases ev)
    case (Frame env)
    with step.IH bossOk_tick [of s env] show ?thesis by simp
  qed (use step.IH in \<open>auto simp: bossOk_def isBoss_def startGame_def togglePause_def
         buy_def claimReward_def handleTouchMove_def Let_def\<close>)
qed

lemma bossOk_count: "bossOk s \<Longrightarrow> bossCount s \<le> 1"
proof -
  assume a: "bossOk s"
  show ?thesis
  proof (cases "length (enemies s) \<le> 1")
    case True
    show ?thesis
      unfolding bossCount_def using True by (rule le_trans [OF length_filter_le])
  next
    case False
    with a have "filter (isBoss s) (enemies s) = []"
      by (auto simp: bossOk_def list_all_iff filter_empty_conv)
    then show ?thesis by (simp add: bossCount_def)
  qed
qed

text \<open>
  C5. In every reachable state at most one enemy of the list is a BOSS, and if there is one,
  \<open>bossActive\<close> is set. \<open>spawnEnemy\<close> does nothing while \<open>bossActive\<close> is set; it appends
  exactly one BOSS and sets \<open>bossActive\<close> if \<open>bossActive\<close> is not set, the level is a
  multiple of 10 and the enemy list is empty; in every other case it appends one enemy that
  is not a BOSS and leaves \<open>bossActive\<close> unset.
\<close>

theorem single_boss:
  "(reachable s \<longrightarrow> bossCount s \<le> 1 \<and> (1 \<le> bossCount s \<longrightarrow> bossActive s))
   \<and> (bossActive s \<longrightarrow> spawnEnemy c env s = s)
   \<and> (\<not> bossActive s \<and> level c mod 10 = 0 \<and> enemies s = [] \<longrightarrow>
        enemies (spawnEnemy c env s) = [nextRef s]
        \<and> bossCount (spawnEnemy c env s) = 1 \<and> bossActive (spawnEnemy c env s))
   \<and> (\<not> bossActive s \<and> \<not> (level c mod 10 = 0 \<and> enemies s = []) \<longrightarrow>
        enemies (spawnEnemy c env s) = enemies s @ [nextRef s]
        \<and> \<not> isBoss (spawnEnemy c env s) (nextRef s)
        \<and> \<not> bossActive (spawnEnemy c env s))"
proof -
  have 1: "bossCount s \<le> 1 \<and> (1 \<le> bossCount s \<longrightarrow> bossActive s)" if "reachable s"
  proof -
    from that have ok: "bossOk s" by (rule bossOk_reachable)
    have "bossActive s" if "1 \<le> bossCount s"
    proof -
      from that have "filter (isBoss s) (enemies s) \<noteq> []" by (auto simp: bossCount_def)
      then obtain q where "q \<in> set (enemies s)" "isBoss s q"
        by (auto simp: filter_empty_conv)
      with ok show ?thesis by (auto simp: bossOk_def list_all_iff)
    qed
    with bossOk_count [OF ok] show ?thesis by simp
  qed
  have 2: "spawnEnemy c env s = s" if "bossActive s"
    using that by (simp add: spawnEnemy_def)
  have 3: "enemies (spawnEnemy c env s) = [nextRef s]
        \<and> bossCount (spawnEnemy c env s) = 1 \<and> bossActive (spawnEnemy c env s)"
    if "\<not> bossActive s" "level c mod 10 = 0" "enemies s = []"
    using that by (simp add: spawnEnemy_def pushEnemy_def bossCount_def isBoss_def bossEnemy_def)
  have 4: "enemies (spawnEnemy c env s) = enemies s @ [nextRef s]
        \<and> \<not> isBoss (spawnEnemy c env s) (nextRef s)
        \<and> \<not> bossActive (spawnEnemy c env s)"
    if "\<not> bossActive s" "\<not> (level c mod 10 = 0 \<and> enemies s = [])"
    using that rollType_not_boss [of "level c" "rnd_type env"]
    by (auto simp: spawnEnemy_def pushEnemy_def isBoss_def normalEnemy_type)
  show ?thesis
    by (intro conjI impI) (use 1 2 3 4 in auto)
qed

text \<open>A boss is due at level 10 with no enemy alive; at level 1 a normal enemy spawns.\<close>

theorem single_boss_witness:
  "reachable (freshSession False) \<and> bossCount (freshSession False) \<le> 1
   \<and> \<not> bossActive bossDue \<and> level bossDue mod 10 = 0 \<and> enemies bossDue = []
   \<and> bossCount (spawnEnemy bossDue (quietEnv 0) bossDue) = 1
   \<and> bossActive (spawnEnemy bossDue (quietEnv 0) bossDue)
   \<and> \<not> bossActive (freshSession False) \<and> level (freshSession False) mod 10 \<noteq> 0
   \<and> \<not> isBoss (spawnEnemy (freshSession False) (quietEnv 0) (freshSession False))
          (nextRef (freshSession False))
   \<and> bossActive bossFight \<and> spawnEnemy bossFight (quietEnv 0) bossFight = bossFight"
proof -
  have d: "\<not> bossActive bossDue" "level bossDue mod 10 = 0" "enemies bossDue = []"
    by code_simp+
  have f: "\<not> bossActive (freshSession False)" "level (freshSession False) mod 10 \<noteq> 0"
    by code_simp+
  have b: "bossActive bossFight"
    by code_simp
  show ?thesis
    using single_boss [of "freshSession False" "freshSession False" "quietEnv 0"]
      single_boss [of bossDue bossDue "quietEnv 0"]
      single_boss [of bossFight bossFight "quietEnv 0"]
      d f b reachable_freshSession [of False]
    by simp
qed

section \<open>Guardian mode (C6)\<close>

lemma guardianRun_beforeLevelUp:
  assumes "isGuardianMode c" and "guardianRun l s"
  shows "guardianRun l (beforeLevelUp c env s)"
  using assms(2)
  by (rule beforeLevelUp_pres [where P = "guardianRun l"])
     (auto simp: guardianRun_def step_defs assms(1) split: PowerUpType.splits)

lemma guardianRun_tick:
  assumes "isGuardianMode s" and "guardianRun l s"
  shows "guardianRun l (tick env s)"
  using guardianRun_beforeLevelUp [OF assms, of env]
  by (simp add: guardianRun_def tick_session_fields)

lemma noResult_beforeLevelUp:
  assumes "\<not> isGuardianMode c" and "gameState s \<noteq> GUARDIAN_RESULT"
  shows "gameState (beforeLevelUp c env s) \<noteq> GUARDIAN_RESULT"
  using assms(2)
  by (rule beforeLevelUp_pres [where P = "\<lambda>t. gameState t \<noteq> GUARDIAN_RESULT"])
     (simp_all add: step_defs assms(1) split: PowerUpType.splits)

lemma guardianOk_tick:
  assumes "guardianOk s" and "gameState s = PLAYING"
  shows "guardianOk (tick env s)"
proof (cases "isGuardianMode s")
  case True
  with assms have "guardianRun (lives s) s" by (simp add: guardianOk_def guardianRun_def)
  from guardianRun_tick [OF True this, of env] True show ?thesis
    by (auto simp: guardianOk_def guardianRun_def tick_session_fields
        isGuardianMode_beforeLevelUp)
next
  case False
  with assms noResult_beforeLevelUp [of s s env]
  show ?thesis
    by (auto simp: guardianOk_def tick_session_fields isGuardianMode_beforeLevelUp)
qed

lemma guardianOk_reachable: "reachable s \<Longrightarrow> guardianOk s"
proof (induction rule: reachable.induct)
  case (init u coins)
  show ?case by (simp add: guardianOk_def initialGame_def)
next
  case (step s ev)
  show ?case
  proof (cases ev)
    case (Frame env)
    with step.IH guardianOk_tick show ?thesis by simp
  qed (use step.IH in \<open>auto simp: guardianOk_def startGame_def togglePause_def buy_def
         claimReward_def handleTouchMove_def Let_def\<close>)
qed

text \<open>
  C6. A frame of a running guardian session with fewer than 40 escapes never changes the
  lives, and it ends in \<open>GUARDIAN_RESULT\<close> exactly if the escape count is 40 or more after
  it, and in \<open>PLAYING\<close> otherwise. In every reachable state a running or paused guardian
  session has fewer than 40 escapes, and \<open>GUARDIAN_RESULT\<close> is only entered in guardian mode
  with at least 40 escapes.
\<close>

theorem guardian_mode:
  "(isGuardianMode s \<and> gameState s = PLAYING \<and> escapedEnemies s < 40 \<longrightarrow>
      lives (tick env s) = lives s
      \<and> (gameState (tick env s) = GUARDIAN_RESULT \<longleftrightarrow> 40 \<le> escapedEnemies (tick env s))
      \<and> (gameState (tick env s) = GUARDIAN_RESULT \<or> gameState (tick env s) = PLAYING))
   \<and> (reachable s \<longrightarrow>
        (isGuardianMode s \<and> (gameState s = PLAYING \<or> gameState s = PAUSED)
           \<longrightarrow> escapedEnemies s < 40)
        \<and> (gameState s = GUARDIAN_RESULT \<longrightarrow> isGuardianMode s \<and> 40 \<le> escapedEnemies s))"
proof -
  have "lives (tick env s) = lives s
      \<and> (gameState (tick env s) = GUARDIAN_RESULT \<longleftrightarrow> 40 \<le> escapedEnemies (tick env s))
      \<and> (gameState (tick env s) = GUARDIAN_RESULT \<or> gameState (tick env s) = PLAYING)"
    if g: "isGuardianMode s" and "gameState s = PLAYING" and "escapedEnemies s < 40"
  proof -
    from that have "guardianRun (lives s) s" by (simp add: guardianRun_def)
    from guardianRun_tick [OF g this, of env] show ?thesis
      by (auto simp: guardianRun_def)
  qed
  then show ?thesis
    using guardianOk_reachable [of s] by (auto simp: guardianOk_def)
qed

lemma guardianAt39_escapes: "escapedEnemies (tick (quietEnv 0) guardianAt39) = 40"
  by code_simp

text \<open>The 40th escape ends the session; a fresh guardian session is reachable.\<close>

theorem guardian_mode_witness:
  "isGuardianMode guardianAt39 \<and> gameState guardianAt39 = PLAYING
   \<and> escapedEnemies guardianAt39 < 40
   \<and> lives (tick (quietEnv 0) guardianAt39) = 999999
   \<and> escapedEnemies (tick (quietEnv 0) guardianAt39) = 40
   \<and> gameState (tick (quietEnv 0) guardianAt39) = GUARDIAN_RESULT
   \<and> reachable (freshSession True) \<and> isGuardianMode (freshSession True)
   \<and> gameState (freshSession True) = PLAYING \<and> escapedEnemies (freshSession True) < 40"
proof -
  have h: "isGuardianMode guardianAt39" "gameState guardianAt39 = PLAYING"
    "escapedEnemies guardianAt39 < 40" "lives guardianAt39 = 999999"
    by (simp_all add: guardianAt39_def freshSession_def startGame_def initialGame_def)
  have f: "isGuardianMode (freshSession True)" "gameState (freshSession True) = PLAYING"
    by (simp_all add: freshSession_def startGame_def initialGame_def)
  show ?thesis
    using guardian_mode [of guardianAt39 "quietEnv 0"] guardian_mode [of "freshSession True"]
      h f guardianAt39_escapes reachable_freshSession [of True]
    by simp
qed

section \<open>Level up (C7)\<close>

text \<open>
  C7. Whenever the score with which a frame starts exceeds \<open>level * 2000\<close>, the frame adds
  one to the level and leaves both the enemy list and the enemy-bullet list empty; no frame
  lowers the level.
\<close>

theorem level_up:
  "(score s > level s * 2000 \<longrightarrow>
      level (tick env s) = level s + 1 \<and> enemies (tick env s) = []
      \<and> enemyBullets (tick env s) = [])
   \<and> level s \<le> level (tick env s)"
  by (simp add: tick_def update_split endFrame_def survivorCheck_def levelUp_def Let_def
      level_beforeLevelUp)

text \<open>The scenario of the claim: level 1 and a score of exactly 2001.\<close>

theorem level_up_witness:
  "score ((freshSession False)\<lparr>score := 2001\<rparr>) > level ((freshSession False)\<lparr>score := 2001\<rparr>) * 2000
   \<and> level (tick (quietEnv 0) ((freshSession False)\<lparr>score := 2001\<rparr>)) = 2
   \<and> enemies (tick (quietEnv 0) ((freshSession False)\<lparr>score := 2001\<rparr>)) = []
   \<and> enemyBullets (tick (quietEnv 0) ((freshSession False)\<lparr>score := 2001\<rparr>)) = []"
  using level_up [of "(freshSession False)\<lparr>score := 2001\<rparr>" "quietEnv 0"]
  by (simp add: freshSession_def startGame_def initialGame_def)

section \<open>Choice of the enemy type (C8)\<close>

lemma cell_threshold:
  assumes "real j / 100 < r" and "r \<le> (real j + 1) / 100"
  shows "(real k / 100 < r) = (real k / 100 < cellMid j)"
proof -
  have lo: "real j < r * 100" and hi: "r * 100 \<le> real j + 1"
    using assms by (simp_all add: field_simps)
  have l: "(real k / 100 < r) = (real k < r * 100)"
    by (simp add: field_simps)
  have m: "(real k / 100 < cellMid j) = (real k < real j + 1 / 2)"
    unfolding cellMid_def by (simp add: field_simps)
  show ?thesis
  proof (cases "j < k")
    case True
    then have "real (Suc j) \<le> real k" by (simp only: of_nat_le_iff Suc_le_eq)
    then have le: "real j + 1 \<le> real k" by simp
    have "\<not> real k < r * 100" using hi le by linarith
    moreover have "\<not> real k < real j + 1 / 2" using le by linarith
    ultimately show ?thesis using l m by simp
  next
    case False
    then have le: "real k \<le> real j" by simp
    have "real k < r * 100" using lo le by linarith
    moreover have "real k < real j + 1 / 2" using le by linarith
    ultimately show ?thesis using l m by simp
  qed
qed

lemma rollType_cell:
  assumes "real j / 100 < r" and "r \<le> (real j + 1) / 100"
  shows "rollType lvl r = rollType lvl (cellMid j)"
proof -
  have "(0.9 < r) = (0.9 < cellMid j)" "(0.75 < r) = (0.75 < cellMid j)"
    "(0.55 < r) = (0.55 < cellMid j)"
    using cell_threshold [OF assms, of 90] cell_threshold [OF assms, of 75]
      cell_threshold [OF assms, of 55] by simp_all
  then show ?thesis unfolding rollType_def by simp
qed

lemma count_upt: "length (filter P [0..<n]) = card {j. j < n \<and> P j}"
proof -
  have "{i. i < length [0..<n] \<and> P ([0..<n] ! i)} = {j. j < n \<and> P j}" by auto
  then show ?thesis by (simp add: length_filter_conv_card)
qed

lemma mid_gt: "(real k / 100 < cellMid j) = (k \<le> j)"
proof -
  have "(real k / 100 < cellMid j) = (real k < real j + 1 / 2)"
    unfolding cellMid_def by (simp add: field_simps)
  also have "\<dots> = (k \<le> j)"
  proof
    assume "real k < real j + 1 / 2"
    then have "real k < real (Suc j)" by simp
    then have "k < Suc j" by (simp only: of_nat_less_iff)
    then show "k \<le> j" by simp
  next
    assume "k \<le> j"
    then have "real k \<le> real j" by simp
    then show "real k < real j + 1 / 2" by linarith
  qed
  finally show ?thesis .
qed

lemma mids: "(9 < cellMid j * 10) = (90 \<le> j)" "(3 < cellMid j * 4) = (75 \<le> j)"
  "(11 < cellMid j * 20) = (55 \<le> j)"
  using mid_gt [of 90 j] mid_gt [of 75 j] mid_gt [of 55 j] by simp_all

lemma card_range: "card {j. j < n \<and> m \<le> j} = n - m"
proof -
  have "{j. j < n \<and> m \<le> j} = {m..<n}" by auto
  then show ?thesis by simp
qed

lemma shares_hi:
  assumes "3 \<le> lvl"
  shows "typeShare lvl ELITE = 10" "typeShare lvl HEAVY = 15" "typeShare lvl FAST = 20"
    "typeShare lvl BASIC = 55"
proof -
  have e: "{j. j < 100 \<and> rollType lvl (cellMid j) = ELITE} = {j. j < 100 \<and> 90 \<le> j}"
    using assms by (auto simp: rollType_def mids)
  have h: "{j. j < 100 \<and> rollType lvl (cellMid j) = HEAVY} = {75..<90}"
    using assms by (auto simp: rollType_def mids)
  have f: "{j. j < 100 \<and> rollType lvl (cellMid j) = FAST} = {55..<75}"
    using assms by (auto simp: rollType_def mids)
  have b: "{j. j < 100 \<and> rollType lvl (cellMid j) = BASIC} = {0..<55}"
    using assms by (auto simp: rollType_def mids)
  show "typeShare lvl ELITE = 10" "typeShare lvl HEAVY = 15" "typeShare lvl FAST = 20"
    "typeShare lvl BASIC = 55"
    by (simp_all add: typeShare_def count_upt e h f b card_range)
qed

lemma shares_lo:
  assumes "lvl < 3"
  shows "typeShare lvl ELITE = 0" "typeShare lvl HEAVY = 25" "typeShare lvl FAST = 20"
    "typeShare lvl BASIC = 55"
proof -
  have e: "{j. j < 100 \<and> rollType lvl (cellMid j) = ELITE} = {}"
    using assms by (auto simp: rollType_def mids)
  have h: "{j. j < 100 \<and> rollType lvl (cellMid j) = HEAVY} = {75..<100}"
    using assms by (auto simp: rollType_def mids)
  have f: "{j. j < 100 \<and> rollType lvl (cellMid j) = FAST} = {55..<75}"
    using assms by (auto simp: rollType_def mids)
  have b: "{j. j < 100 \<and> rollType lvl (cellMid j) = BASIC} = {0..<55}"
    using assms by (auto simp: rollType_def mids)
  show "typeShare lvl ELITE = 0" "typeShare lvl HEAVY = 25" "typeShare lvl FAST = 20"
    "typeShare lvl BASIC = 55"
    by (simp_all add: typeShare_def count_upt e h f b card_range)
qed

text \<open>
  C8, as stated, gives HEAVY a probability of 25% at every level. At level 3 the rolls above
  0.9 choose ELITE first, and HEAVY is left with 15 of the 100 cells.
\<close>

theorem heavy_share_at_level_3: "typeShare 3 HEAVY = 15 \<and> typeShare 3 HEAVY \<noteq> 25"
  using shares_hi(2) [of 3] by simp

text \<open>
  C8, amended. A normal spawn takes the first branch that matches its one roll. From level 3
  on, ELITE is chosen with probability 10%, HEAVY with 15%, FAST with 20% and BASIC with
  55%; below level 3, ELITE is never chosen, HEAVY has 25%, FAST 20% and BASIC 55%.
\<close>

theorem enemy_type_shares:
  "(3 \<le> lvl \<longrightarrow> typeShare lvl ELITE = 10 \<and> typeShare lvl HEAVY = 15
      \<and> typeShare lvl FAST = 20 \<and> typeShare lvl BASIC = 55)
   \<and> (lvl < 3 \<longrightarrow> typeShare lvl ELITE = 0 \<and> typeShare lvl HEAVY = 25
      \<and> typeShare lvl FAST = 20 \<and> typeShare lvl BASIC = 55)"
  using shares_hi [of lvl] shares_lo [of lvl] by simp

theorem enemy_type_shares_witness:
  "(3::int) \<le> 5 \<and> typeShare 5 ELITE = 10 \<and> typeShare 5 HEAVY = 15
   \<and> (1::int) < 3 \<and> typeShare 1 ELITE = 0 \<and> typeShare 1 HEAVY = 25"
  using enemy_type_shares [of 5] enemy_type_shares [of 1] by simp

section \<open>Persistence of the lifetime coins (C9)\<close>

lemma save_keeps_loaded_coins:
  "loadTotalCoins parseInt (savePersistent toString jsonStringify coins u ls)
     = loadTotalCoins parseInt ls"
  by (simp add: loadTotalCoins_def savePersistent_def)

text \<open>
  C9. The claim is that a write of the lifetime coins followed by a fresh load yields the
  written value. The write goes to the key \<open>karl_coins\<close>, the load reads the key
  \<open>tina_coins\<close>: with an empty storage, writing 500 coins and loading gives 0.
\<close>

theorem written_coins_are_not_loaded:
  "loadTotalCoins parseInt (savePersistent toString jsonStringify 500 u Map.empty) = Some 0"
  by (simp add: loadTotalCoins_def savePersistent_def)

section \<open>The achievement \<open>guardian_hero\<close> (C10)\<close>

lemma findIndex_Some: "findIndex P xs = Some i \<Longrightarrow> i < length xs \<and> P (xs ! i)"
  by (induction xs arbitrary: i) (auto split: if_splits)

lemma heroLocked_unlock:
  assumes "aid \<noteq> ''guardian_hero''"
  shows "heroLocked (achievements (unlockAchievement aid s)) = heroLocked (achievements s)"
proof (cases "findIndex (\<lambda>a. a_id a = aid) (achievements s)")
  case None
  then show ?thesis by (simp add: unlockAchievement_def)
next
  case (Some i)
  from findIndex_Some [OF Some] have i: "i < length (achievements s)"
    and a: "a_id (achievements s ! i) = aid" by simp_all
  have "heroLocked ((achievements s)[i := (achievements s ! i)\<lparr>unlocked := True\<rparr>])
      = heroLocked (achievements s)"
    unfolding heroLocked_def list_all_length
  proof (intro iffI allI impI)
    fix n
    assume h: "\<forall>n<length ((achievements s)[i := (achievements s ! i)\<lparr>unlocked := True\<rparr>]).
        a_id ((achievements s)[i := (achievements s ! i)\<lparr>unlocked := True\<rparr>] ! n) \<noteq> ''guardian_hero''
        \<or> \<not> unlocked ((achievements s)[i := (achievements s ! i)\<lparr>unlocked := True\<rparr>] ! n)"
      and n: "n < length (achievements s)"
    show "a_id (achievements s ! n) \<noteq> ''guardian_hero'' \<or> \<not> unlocked (achievements s ! n)"
    proof (cases "n = i")
      case True
      with a assms show ?thesis by simp
    next
      case False
      with h n show ?thesis by (auto simp: nth_list_update)
    qed
  next
    fix n
    assume h: "\<forall>n<length (achievements s).
        a_id (achievements s ! n) \<noteq> ''guardian_hero'' \<or> \<not> unlocked (achievements s ! n)"
      and n: "n < length ((achievements s)[i := (achievements s ! i)\<lparr>unlocked := True\<rparr>])"
    show "a_id ((achievements s)[i := (achievements s ! i)\<lparr>unlocked := True\<rparr>] ! n) \<noteq> ''guardian_hero''
        \<or> \<not> unlocked ((achievements s)[i := (achievements s ! i)\<lparr>unlocked := True\<rparr>] ! n)"
    proof (cases "n = i")
      case True
      with a assms i show ?thesis by simp
    next
      case False
      with h n show ?thesis by (auto simp: nth_list_update)
    qed
  qed
  with Some show ?thesis by (simp add: unlockAchievement_def Let_def)
qed

lemma achievements_spawnPowerUp [simp]:
  "achievements (spawnPowerUp x y ft tr xr s) = achievements s"
  by (simp add: spawnPowerUp_def Let_def)

lemma achievements_fold_bossCoin [simp]:
  "achievements (fold (bossCoin env i bi e) js s) = achievements s"
  by (rule fold_inv [where P = "\<lambda>t. achievements t = achievements s"]) (simp_all add: bossCoin_def)

lemma heroLocked_beforeLevelUp:
  "heroLocked (achievements (beforeLevelUp c env s)) = heroLocked (achievements s)"
  by (rule beforeLevelUp_pres
        [where P = "\<lambda>t. heroLocked (achievements t) = heroLocked (achievements s)"])
     (simp_all add: step_defs heroLocked_unlock split: PowerUpType.splits)

lemma heroLocked_tick: "heroLocked (achievements (tick env s)) = heroLocked (achievements s)"
  by (simp add: tick_def update_split endFrame_def survivorCheck_def levelUp_def Let_def
      heroLocked_unlock heroLocked_beforeLevelUp)

lemma heroLocked_handle:
  "heroLocked (achievements (handle ev s)) = heroLocked (achievements s)"
  by (cases ev) (simp_all add: heroLocked_tick startGame_def togglePause_def buy_def
      claimReward_def handleTouchMove_def Let_def)

lemma guardian_hero_never_unlocked: "reachable s \<Longrightarrow> heroLocked (achievements s)"
proof (induction rule: reachable.induct)
  case (init u coins)
  show ?case by (simp add: heroLocked_def initialGame_def initialAchievements_def)
next
  case (step s ev)
  then show ?case by (simp add: heroLocked_handle)
qed

text \<open>
  C10. The claim is that surviving more than three minutes in guardian mode unlocks
  \<open>guardian_hero\<close>. A frame of a guardian session 180001 ms after its start unlocks
  \<open>survivor\<close> (the second entry) and leaves \<open>guardian_hero\<close> (the last entry) locked.
  No call of \<open>unlockAchievement\<close> names it, so it is locked in every reachable state
  (lemma \<open>guardian_hero_never_unlocked\<close>).
\<close>

theorem guardian_hero_stays_locked:
  "isGuardianMode (freshSession True) \<and> gameState (freshSession True) = PLAYING
   \<and> map unlocked (achievements (tick (quietEnv 180001) (freshSession True)))
       = [False, True, False, False, False, False, False, False, False]"
  by code_simp

end
